theory Spec2Isabelle
  imports Main "HOL-Library.Sublist" "HOL-Library.AList"
begin

section \<open>JavaScript string primitives\<close>

text \<open>
  A JavaScript string is a sequence of code units, and every primitive used by the parser
  (\<open>length\<close>, \<open>charAt\<close>, \<open>substring\<close>, \<open>slice\<close>, \<open>endsWith\<close>, \<open>indexOf\<close>) counts and compares
  code units. A string is modelled as a \<open>string\<close> (a list of characters), one character
  per code unit. Indices are \<open>int\<close>, since the cursors of the parser can leave the range
  of the string (\<open>j\<close> starts at \<open>length - 1\<close>). \<open>newline\<close> is the string of the line feed and
  \<open>fence\<close> the string of three backquotes.
\<close>

definition newline :: string where
  "newline = [CHR 0x0A]"

definition fence :: string where
  "fence = [CHR 0x60, CHR 0x60, CHR 0x60]"

text \<open>\<open>s.charAt(k)\<close>: the one-unit string at index \<open>k\<close>, the empty string out of range.\<close>

definition charAt :: "string \<Rightarrow> int \<Rightarrow> string" where
  "charAt s k = (if 0 \<le> k \<and> k < int (length s) then [s ! nat k] else [])"

text \<open>Clamping of an index argument to \<open>[0, length]\<close>.\<close>

definition clampIndex :: "string \<Rightarrow> int \<Rightarrow> nat" where
  "clampIndex s k = min (nat (max k 0)) (length s)"

text \<open>
  \<open>s.substring(a, b)\<close>: both arguments are clamped to \<open>[0, length]\<close>, and they are swapped
  when the first exceeds the second.
\<close>

definition substring :: "string \<Rightarrow> int \<Rightarrow> int \<Rightarrow> string" where
  "substring s a b =
     (let a' = clampIndex s a; b' = clampIndex s b;
          lo = min a' b'; hi = max a' b'
      in take (hi - lo) (drop lo s))"

text \<open>\<open>s.substring(a, Infinity)\<close>: the end argument is clamped to the length.\<close>

definition substringToEnd :: "string \<Rightarrow> int \<Rightarrow> string" where
  "substringToEnd s a = substring s a (int (length s))"

text \<open>
  \<open>xs.slice(a, b)\<close> on strings and arrays: a negative argument counts from the end, both are
  clamped to \<open>[0, length]\<close>, and the result is empty when the start is not below the end.
\<close>

definition slice :: "'a list \<Rightarrow> int \<Rightarrow> int \<Rightarrow> 'a list" where
  "slice s a b =
     (let n = int (length s);
          from = (if a < 0 then max (n + a) 0 else min a n);
          to = (if b < 0 then max (n + b) 0 else min b n)
      in take (nat (to - from)) (drop (nat from) s))"

text \<open>\<open>s.endsWith(x)\<close>.\<close>

definition endsWith :: "string \<Rightarrow> string \<Rightarrow> bool" where
  "endsWith s x = suffix x s"

text \<open>
  \<open>s.indexOf(pat, pos)\<close>: the least index \<open>k \<ge> clamp(pos)\<close> at which \<open>pat\<close> occurs in \<open>s\<close>,
  \<open>None\<close> for the result \<open>-1\<close>. \<open>firstOccurrence pat xs\<close> scans \<open>xs\<close> from its head.
\<close>

fun firstOccurrence :: "string \<Rightarrow> string \<Rightarrow> nat option" where
  "firstOccurrence pat [] = (if pat = [] then Some 0 else None)"
| "firstOccurrence pat (x # xs) =
     (if prefix pat (x # xs) then Some 0 else map_option Suc (firstOccurrence pat xs))"

definition indexOf :: "string \<Rightarrow> string \<Rightarrow> int \<Rightarrow> nat option" where
  "indexOf s pat pos =
     (let p = clampIndex s pos
      in map_option (\<lambda>k. p + k) (firstOccurrence pat (drop p s)))"

section \<open>The cursor pair of the incremental parser\<close>

text \<open>
  \<open>class SurroundingsRemover\<close>: the source string and the inclusive bounds \<open>i\<close>, \<open>j\<close> of
  the live substring. The fields \<open>i\<close> and \<open>j\<close> are named \<open>cur_i\<close> and \<open>cur_j\<close>.
\<close>

record SurroundingsRemover =
  originalS :: string
  cur_i :: int
  cur_j :: int

definition newSurroundingsRemover :: "string \<Rightarrow> SurroundingsRemover" where
  "newSurroundingsRemover s = \<lparr>originalS = s, cur_i = 0, cur_j = int (length s) - 1\<rparr>"

definition val :: "SurroundingsRemover \<Rightarrow> string" where
  "val pm = substring (originalS pm) (cur_i pm) (cur_j pm + 1)"

text \<open>
  \<open>removePrefix\<close>: the loop advances \<open>i\<close> while the source agrees with the prefix; the
  result says whether the whole prefix was matched.
\<close>

function removePrefix_loop ::
  "string \<Rightarrow> SurroundingsRemover \<Rightarrow> nat \<Rightarrow> SurroundingsRemover \<times> nat" where
  "removePrefix_loop pre pm offset =
     (if cur_i pm \<le> cur_j pm \<and> int offset \<le> int (length pre) - 1 then
        (if charAt (originalS pm) (cur_i pm) \<noteq> charAt pre (int offset) then (pm, offset)
         else removePrefix_loop pre (pm\<lparr>cur_i := cur_i pm + 1\<rparr>) (offset + 1))
      else (pm, offset))"
  by pat_completeness auto
termination
  by (relation "measure (\<lambda>(pre, pm, offset). length pre - offset)") auto

declare removePrefix_loop.simps [simp del]

definition removePrefix :: "string \<Rightarrow> SurroundingsRemover \<Rightarrow> bool \<times> SurroundingsRemover" where
  "removePrefix pre pm =
     (case removePrefix_loop pre pm 0 of (pm', offset) \<Rightarrow> (offset = length pre, pm'))"

text \<open>
  \<open>removeSuffix\<close>: for \<open>len\<close> from \<open>min(s.length, suffix.length)\<close> down to \<open>1\<close>, the first
  prefix of the suffix that the live value ends with is cut off from the right.
\<close>

fun removeSuffix_loop ::
  "string \<Rightarrow> string \<Rightarrow> SurroundingsRemover \<Rightarrow> nat \<Rightarrow> bool \<times> SurroundingsRemover" where
  "removeSuffix_loop s suf pm 0 = (False, pm)"
| "removeSuffix_loop s suf pm (Suc n) =
     (if endsWith s (substring suf 0 (int (Suc n)))
      then (Suc n = length suf, pm\<lparr>cur_j := cur_j pm - int (Suc n)\<rparr>)
      else removeSuffix_loop s suf pm n)"

definition removeSuffix :: "string \<Rightarrow> SurroundingsRemover \<Rightarrow> bool \<times> SurroundingsRemover" where
  "removeSuffix suf pm =
     (let s = val pm in removeSuffix_loop s suf pm (min (length s) (length suf)))"

text \<open>\<open>removeFromStartUntil\<close> returns \<open>null\<close> (here \<open>None\<close>) or \<open>true\<close>.\<close>

definition removeFromStartUntil ::
  "string \<Rightarrow> bool \<Rightarrow> SurroundingsRemover \<Rightarrow> bool option \<times> SurroundingsRemover" where
  "removeFromStartUntil until alsoRemoveUntilStr pm =
     (case indexOf (originalS pm) until (cur_i pm) of
        None \<Rightarrow> (None, pm\<lparr>cur_i := cur_j pm + 1\<rparr>)
      | Some index \<Rightarrow>
          (Some True,
           if alsoRemoveUntilStr then pm\<lparr>cur_i := int index + int (length until)\<rparr>
           else pm\<lparr>cur_i := int index\<rparr>))"

definition removeCodeBlock :: "SurroundingsRemover \<Rightarrow> bool \<times> SurroundingsRemover" where
  "removeCodeBlock pm =
     (case removePrefix fence pm of (foundCodeBlock, pm1) \<Rightarrow>
        if \<not> foundCodeBlock then (False, pm1)
        else
          (case removeFromStartUntil newline True pm1 of (_, pm2) \<Rightarrow>
             let j = cur_j pm2 in
             (case removeSuffix fence pm2 of (foundCodeBlockEnd, pm3) \<Rightarrow>
                (case (if cur_j pm3 = j then removeSuffix (fence @ newline) pm3
                       else (foundCodeBlockEnd, pm3)) of (foundCodeBlockEnd', pm4) \<Rightarrow>
                   if \<not> foundCodeBlockEnd' then (False, pm4)
                   else (case removeSuffix newline pm4 of (_, pm5) \<Rightarrow> (True, pm5))))))"

definition deltaInfo :: "int \<Rightarrow> SurroundingsRemover \<Rightarrow> string \<times> string" where
  "deltaInfo recentlyAddedTextLen pm =
     (let recentlyAddedIdx = int (length (originalS pm)) - recentlyAddedTextLen;
          actualDelta = substring (originalS pm) (max (cur_i pm) recentlyAddedIdx) (cur_j pm + 1);
          ignoredSuffix = substringToEnd (originalS pm) (max (cur_j pm + 1) recentlyAddedIdx)
      in (actualDelta, ignoredSuffix))"

definition extractCodeFromRegular :: "string \<Rightarrow> int \<Rightarrow> string \<times> string \<times> string" where
  "extractCodeFromRegular text recentlyAddedTextLen =
     (let pm = snd (removeCodeBlock (newSurroundingsRemover text));
          s = val pm;
          (delta, ignoredSuffix) = deltaInfo recentlyAddedTextLen pm
      in (s, delta, ignoredSuffix))"

definition extractCodeFromFIM :: "string \<Rightarrow> int \<Rightarrow> string \<Rightarrow> string \<times> string \<times> string" where
  "extractCodeFromFIM text recentlyAddedTextLen midTag =
     (let pm = snd (removeCodeBlock (newSurroundingsRemover text));
          (foundMid, pm1) = removePrefix (''<'' @ midTag @ ''>'') pm;
          pm2 = (if foundMid then snd (removeSuffix (''</'' @ midTag @ ''>'') pm1) else pm1);
          s = val pm2;
          (delta, ignoredSuffix) = deltaInfo recentlyAddedTextLen pm2
      in (s, delta, ignoredSuffix))"

section \<open>Search/replace blocks\<close>

datatype BlockState = WritingOriginal | WritingFinal | Done

record ExtractedSearchReplaceBlock =
  state :: BlockState
  orig :: string
  final :: string

text \<open>
  \<open>endsWithAnyPrefixOf\<close>: the loop index runs from \<open>anyPrefix.length\<close> down to \<open>0\<close>; the
  result \<open>null\<close> is \<open>None\<close>.
\<close>

fun endsWithAnyPrefixOf_loop :: "string \<Rightarrow> string \<Rightarrow> nat \<Rightarrow> string option" where
  "endsWithAnyPrefixOf_loop str anyPrefix 0 =
     (if endsWith str (slice anyPrefix 0 0) then Some (slice anyPrefix 0 0) else None)"
| "endsWithAnyPrefixOf_loop str anyPrefix (Suc k) =
     (if endsWith str (slice anyPrefix 0 (int (Suc k))) then Some (slice anyPrefix 0 (int (Suc k)))
      else endsWithAnyPrefixOf_loop str anyPrefix k)"

definition endsWithAnyPrefixOf :: "string \<Rightarrow> string \<Rightarrow> string option" where
  "endsWithAnyPrefixOf str anyPrefix = endsWithAnyPrefixOf_loop str anyPrefix (length anyPrefix)"

text \<open>\<open>x?.length ?? 0\<close>\<close>

definition lengthOrZero :: "string option \<Rightarrow> nat" where
  "lengthOrZero x = (case x of None \<Rightarrow> 0 | Some p \<Rightarrow> length p)"

text \<open>
  The markers \<open>ORIGINAL\<close>, \<open>DIVIDER\<close> and \<open>FINAL\<close> are imported from the prompt module and are
  parameters here. The search strings \<open>ORIGINAL_\<close>, \<open>DIVIDER_\<close> and \<open>FINAL_\<close> of the function
  are the constants \<open>ORIGINAL'\<close>, \<open>DIVIDER'\<close> and \<open>FINAL'\<close>.
\<close>

definition ORIGINAL' :: "string \<Rightarrow> string" where
  "ORIGINAL' ORIGINAL = ORIGINAL @ newline"

definition DIVIDER' :: "string \<Rightarrow> string" where
  "DIVIDER' DIVIDER = newline @ DIVIDER @ newline"

definition FINAL' :: "string \<Rightarrow> string" where
  "FINAL' FINAL = newline @ FINAL"

text \<open>
  The \<open>while (true)\<close> loop: \<open>i\<close> is the search position and \<open>blocks\<close> the array built so far.
  Its termination is proved below, from the bounds of \<open>indexOf\<close>.
\<close>

function extractLoop ::
  "string \<Rightarrow> string \<Rightarrow> string \<Rightarrow> string \<Rightarrow> nat \<Rightarrow> ExtractedSearchReplaceBlock list
     \<Rightarrow> ExtractedSearchReplaceBlock list" where
  "extractLoop ORIGINAL DIVIDER FINAL str i blocks =
     (case indexOf str (ORIGINAL' ORIGINAL) (int i) of
        None \<Rightarrow> blocks
      | Some origStart0 \<Rightarrow>
          (case indexOf str (DIVIDER' DIVIDER) (int (origStart0 + length (ORIGINAL' ORIGINAL))) of
             None \<Rightarrow>
               blocks @
                 [\<lparr>state = WritingOriginal,
                   orig = substring str (int (origStart0 + length (ORIGINAL' ORIGINAL)))
                            (int (length str)
                               - int (lengthOrZero (endsWithAnyPrefixOf str (DIVIDER' DIVIDER)))),
                   final = []\<rparr>]
           | Some dividerStart0 \<Rightarrow>
               (case indexOf str (FINAL' FINAL) (int (dividerStart0 + length (DIVIDER' DIVIDER))) of
                  None \<Rightarrow>
                    blocks @
                      [\<lparr>state = WritingFinal,
                        orig = substring str (int (origStart0 + length (ORIGINAL' ORIGINAL)))
                                 (int dividerStart0),
                        final = substring str (int (dividerStart0 + length (DIVIDER' DIVIDER)))
                                  (int (length str)
                                     - int (lengthOrZero (endsWithAnyPrefixOf str (FINAL' FINAL))))\<rparr>]
                | Some finalStart0 \<Rightarrow>
                    extractLoop ORIGINAL DIVIDER FINAL str (finalStart0 + length (FINAL' FINAL))
                      (blocks @
                         [\<lparr>state = Done,
                           orig = substring str (int (origStart0 + length (ORIGINAL' ORIGINAL)))
                                    (int dividerStart0),
                           final = substring str (int (dividerStart0 + length (DIVIDER' DIVIDER)))
                                     (int finalStart0)\<rparr>]))))"
  by pat_completeness auto

definition extractSearchReplaceBlocks ::
  "string \<Rightarrow> string \<Rightarrow> string \<Rightarrow> string \<Rightarrow> ExtractedSearchReplaceBlock list" where
  "extractSearchReplaceBlocks ORIGINAL DIVIDER FINAL str = extractLoop ORIGINAL DIVIDER FINAL str 0 []"

section \<open>Chat threads\<close>

text \<open>
  The chat thread service. Its collaborators are made explicit:
  \<^item> the clock: \<open>Date_getTime env n\<close> is the reading in milliseconds of the \<open>n\<close>-th
    \<open>new Date()\<close> of the run, and \<open>dateCalls\<close> counts the readings taken so far; the ISO
    strings \<open>createdAt\<close> and \<open>lastModified\<close> are represented by the reading they print;
  \<^item> the storage service: \<open>storedVersion\<close> and \<open>storedThreads\<close> are the values under the two
    keys; the JSON text of a thread map is represented by the map itself (\<open>Json\<close>), next to the
    empty string and a text that \<open>JSON.parse\<close> rejects;
  \<^item> the two emitters: \<open>currentThreadChanges\<close> counts the events of
    \<open>onDidChangeCurrentThread\<close> and \<open>streamStateChanges\<close> lists the thread ids of the events of
    \<open>onDidChangeStreamState\<close>;
  \<^item> the message service: \<open>aborted\<close> lists the tokens passed to \<open>abort\<close>, \<open>sentRequests\<close> the
    requests passed to \<open>sendLLMMessage\<close>, and \<open>sendLLMMessage env k req\<close> says what the service
    does with the \<open>k\<close>-th request: it returns \<open>null\<close> (after an optional call of \<open>onError\<close>),
    or it returns a token, reports texts and ends with a final message, with an error, or
    not at all;
  \<^item> the tools service: \<open>toolFns\<close> and \<open>toolResultToString\<close> return \<open>Inl\<close> for a thrown
    error; a tool result is a pair whose first component is \<open>toolResult[0]\<close>, and
    \<open>toolInvocations\<close> lists the calls of tool functions;
  \<^item> the prompt builders \<open>chat_userMessageContent\<close>, \<open>chat_selectionsString\<close>,
    \<open>chat_userMessageContentWithAllFiles\<close> and \<open>chat_systemMessage\<close>, the workspace folders
    and the tool catalogue \<open>voidTools\<close>.

  \<open>allThreads\<close> is an association list in the order in which \<open>for ... in\<close> enumerates the
  keys; \<open>AList.update\<close> replaces the value of a present key in place and appends a new
  key, as the spread \<open>{...allThreads, [id]: thread}\<close> does for keys that are not array
  indices (an id is a reading of the clock in milliseconds). \<open>currentThreadId\<close> is \<open>None\<close>
  for the \<open>null\<close> that the constructor writes before it opens a thread. A number that
  indexes a message is an \<open>int\<close>. A thrown error is the outcome
  \<open>Threw\<close>, returned with the state reached when it was thrown. Each operation is modelled
  as it runs when no other operation of the service is interleaved at its \<open>await\<close>s.
  The fields \<open>id\<close> and \<open>state\<close> of a thread are \<open>thread_id\<close> and \<open>thread_state\<close>, the field
  \<open>state\<close> of the service is \<open>threadsState\<close>, and a method \<open>_name\<close> is \<open>name\<close>.
\<close>

type_synonym URI = string

type_synonym IRange = "int \<times> int \<times> int \<times> int"

datatype StagingSelectionItem =
    CodeSelection URI string IRange
  | FileSelection URI

record UserMessageState =
  stagingSelections :: "StagingSelectionItem list"
  isBeingEdited :: bool

definition defaultMessageState :: UserMessageState where
  "defaultMessageState = \<lparr>stagingSelections = [], isBeingEdited = False\<rparr>"

datatype Role = RoleSystem | RoleUser | RoleAssistant | RoleTool

text \<open>
  \<open>ChatMessage\<close>, one constructor per role. The arguments are: for \<open>system\<close> the content; for
  \<open>user\<close> the content, the \<open>displayContent\<close>, the selections and the \<open>state\<close>, where \<open>None\<close> is
  \<open>null\<close> or, for the state of a message stored by version \<open>v1\<close>, a missing field; for
  \<open>assistant\<close> the content and the \<open>displayContent\<close>; for \<open>tool\<close> the name, the parameters, the
  id, the content and the typed result, whose type \<open>'r\<close> is a parameter.
\<close>

datatype 'r ChatMessage =
    SystemMessage string
  | UserMessage "string option" "string option" "StagingSelectionItem list option"
      "UserMessageState option"
  | AssistantMessage "string option" "string option"
  | ToolMessage string string string string 'r

fun role :: "'r ChatMessage \<Rightarrow> Role" where
  "role (SystemMessage c) = RoleSystem"
| "role (UserMessage c d s st) = RoleUser"
| "role (AssistantMessage c d) = RoleAssistant"
| "role (ToolMessage n p i c r) = RoleTool"

record ThreadState =
  threadStagingSelections :: "StagingSelectionItem list"
  focusedMessageIdx :: "int option"
  isCheckedOfSelectionId :: "(string \<times> bool) list"

definition defaultThreadState :: ThreadState where
  "defaultThreadState =
     \<lparr>threadStagingSelections = [], focusedMessageIdx = None, isCheckedOfSelectionId = []\<rparr>"

record 'r ThreadType =
  thread_id :: string
  createdAt :: nat
  lastModified :: nat
  messages :: "'r ChatMessage list"
  thread_state :: "ThreadState option"

type_synonym 'r ChatThreads = "(string \<times> 'r ThreadType) list"

record 'r ThreadsState =
  allThreads :: "'r ChatThreads"
  currentThreadId :: "string option"

text \<open>
  The \<open>error\<close> of a stream state: the object \<open>{message, fullError}\<close> passed to \<open>onError\<close>, or the
  value caught around a tool call.
\<close>

datatype StreamError = OnErrorInfo string "string option" | CaughtError string

record ThreadStreamEntry =
  error :: "StreamError option"
  messageSoFar :: "string option"
  streamingToken :: "string option"

type_synonym ThreadStreamState = "string \<Rightarrow> ThreadStreamEntry option"

datatype 'r ThreadsStr = EmptyString | NotJson | Json "'r ChatThreads"

record 'r StorageService =
  storedVersion :: "string option"
  storedThreads :: "'r ThreadsStr option"

datatype LLMChatMessage =
    LLMSystem string
  | LLMUser string
  | LLMAssistant string
  | LLMTool string string string string

record LLMRequest =
  requestMessages :: "LLMChatMessage list"
  requestTools :: "string list option"

record ToolCallType =
  tc_name :: string
  tc_params :: string
  tc_id :: string

record 'r ChatThreadService =
  threadsState :: "'r ThreadsState"
  streamState :: ThreadStreamState
  storage :: "'r StorageService"
  currentThreadChanges :: nat
  streamStateChanges :: "string list"
  aborted :: "string list"
  dateCalls :: nat
  toolInvocations :: "(string \<times> string) list"
  sentRequests :: "LLMRequest list"

text \<open>
  The outcome of a call, the ending of a request (\<open>FinalMessage fullText toolCalls\<close>, where
  absent tool calls are the empty list, \<open>ErrorMessage message fullError\<close>, or no callback at
  all) and the reply of the message service to a request (\<open>ReturnsNull\<close>, with the error of a
  call of \<open>onError\<close> made before returning, or \<open>Streams token texts ending\<close>).
\<close>

datatype Outcome = Returned | Threw string

datatype TransportEnding =
    FinalMessage string "ToolCallType list"
  | ErrorMessage string "string option"
  | NoEnding

datatype TransportReply =
    ReturnsNull "(string \<times> string option) option"
  | Streams string "string list" TransportEnding

datatype ChatMode = Agent | Chat

record ('r, 'x) Collaborators =
  Date_getTime :: "nat \<Rightarrow> nat"
  chat_userMessageContent :: "string \<Rightarrow> StagingSelectionItem list \<Rightarrow> string"
  chat_selectionsString :: "StagingSelectionItem list \<Rightarrow> StagingSelectionItem list \<Rightarrow> string"
  chat_userMessageContentWithAllFiles :: "string \<Rightarrow> string \<Rightarrow> string"
  chat_systemMessage :: "string list \<Rightarrow> string"
  workspaceFolders :: "string list"
  voidTools :: "string list"
  toolFns :: "string \<Rightarrow> string \<Rightarrow> string + ('r \<times> 'x)"
  toolResultToString :: "string \<Rightarrow> ('r \<times> 'x) \<Rightarrow> string + string"
  sendLLMMessage :: "nat \<Rightarrow> LLMRequest \<Rightarrow> TransportReply"

text \<open>\<open>n.toString()\<close> for a natural number \<open>n\<close>: its decimal digits.\<close>

definition digitChar :: "nat \<Rightarrow> char" where
  "digitChar n = ''0123456789'' ! n"

fun toString :: "nat \<Rightarrow> string" where
  "toString n = (if n < 10 then [digitChar n] else toString (n div 10) @ [digitChar (n mod 10)])"

declare toString.simps [simp del]

text \<open>\<open>findLastIndex\<close>: the loop runs from the last index down to \<open>0\<close>; \<open>None\<close> is \<open>-1\<close>.\<close>

fun findLastIndex_loop :: "'a list \<Rightarrow> ('a \<Rightarrow> bool) \<Rightarrow> nat \<Rightarrow> nat option" where
  "findLastIndex_loop arr condition 0 = None"
| "findLastIndex_loop arr condition (Suc i) =
     (if condition (arr ! i) then Some i else findLastIndex_loop arr condition i)"

definition findLastIndex :: "'a list \<Rightarrow> ('a \<Rightarrow> bool) \<Rightarrow> nat option" where
  "findLastIndex arr condition = findLastIndex_loop arr condition (length arr)"

text \<open>
  \<open>newThreadObject\<close> reads the clock twice: first for \<open>createdAt\<close> and \<open>lastModified\<close>, then for
  the \<open>id\<close>, which is the decimal text of the reading.
\<close>

definition newThreadObject ::
  "('r, 'x) Collaborators \<Rightarrow> 'r ChatThreadService \<Rightarrow> 'r ThreadType \<times> 'r ChatThreadService" where
  "newThreadObject env w =
     (let now = Date_getTime env (dateCalls w);
          idTime = Date_getTime env (dateCalls w + 1)
      in (\<lparr>thread_id = toString idTime, createdAt = now, lastModified = now, messages = [],
           thread_state = Some \<lparr>threadStagingSelections = [], focusedMessageIdx = None,
                                 isCheckedOfSelectionId = []\<rparr>\<rparr>,
          w\<lparr>dateCalls := dateCalls w + 2\<rparr>))"

definition LATEST_THREAD_VERSION :: string where
  "LATEST_THREAD_VERSION = ''v2''"

text \<open>
  \<open>_readAllThreads\<close>: a missing or empty stored string gives the empty thread map, and
  \<open>JSON.parse\<close> throws on a string that is not JSON.
\<close>

definition readAllThreads :: "'r StorageService \<Rightarrow> string + 'r ChatThreads" where
  "readAllThreads st =
     (case storedThreads st of
        None \<Rightarrow> Inr []
      | Some EmptyString \<Rightarrow> Inr []
      | Some NotJson \<Rightarrow> Inl ''SyntaxError''
      | Some (Json threads) \<Rightarrow> Inr threads)"

text \<open>
  \<open>_updatedThreadsToVersion\<close>: \<open>!oldVersion\<close> holds for a missing tag and for the empty string;
  for \<open>v1\<close> every thread without \<open>state\<close> and every user message without \<open>state\<close> gets the
  default state, and the updated threads are returned; every other tag returns \<open>null\<close>.
\<close>

fun migrateMessage :: "'r ChatMessage \<Rightarrow> 'r ChatMessage" where
  "migrateMessage (UserMessage c d s None) = UserMessage c d s (Some defaultMessageState)"
| "migrateMessage m = m"

definition migrateThread :: "'r ThreadType \<Rightarrow> 'r ThreadType" where
  "migrateThread thread =
     (let thread1 = (if thread_state thread = None
                     then thread\<lparr>thread_state := Some defaultThreadState\<rparr> else thread)
      in thread1\<lparr>messages := map migrateMessage (messages thread1)\<rparr>)"

definition updatedThreadsToVersion ::
  "'r ChatThreads \<Rightarrow> string option \<Rightarrow> 'r ChatThreads option" where
  "updatedThreadsToVersion oldThreadsObject oldVersion =
     (if oldVersion = None \<or> oldVersion = Some [] then None
      else if oldVersion = Some ''v1''
        then Some (map (\<lambda>(k, thread). (k, migrateThread thread)) oldThreadsObject)
      else if oldVersion = Some ''v2'' then None
      else None)"

definition storeAllThreads :: "'r ChatThreads \<Rightarrow> 'r ChatThreadService \<Rightarrow> 'r ChatThreadService" where
  "storeAllThreads threads w = w\<lparr>storage := (storage w)\<lparr>storedThreads := Some (Json threads)\<rparr>\<rparr>"

text \<open>
  \<open>_setState(state, affectsCurrent)\<close>: the argument is a partial state; a field that the
  caller leaves out is \<open>None\<close> here and keeps its value.
\<close>

definition setState ::
  "'r ChatThreads option \<Rightarrow> string option \<Rightarrow> bool \<Rightarrow> 'r ChatThreadService \<Rightarrow> 'r ChatThreadService" where
  "setState newAllThreads newCurrentThreadId affectsCurrent w =
     (let st = threadsState w;
          st1 = (case newAllThreads of None \<Rightarrow> st | Some a \<Rightarrow> st\<lparr>allThreads := a\<rparr>);
          st2 = (case newCurrentThreadId of None \<Rightarrow> st1 | Some c \<Rightarrow> st1\<lparr>currentThreadId := Some c\<rparr>)
      in w\<lparr>threadsState := st2,
            currentThreadChanges :=
              (if affectsCurrent then currentThreadChanges w + 1 else currentThreadChanges w)\<rparr>)"

text \<open>
  \<open>_setStreamState(threadId, state)\<close>: a key of the partial state overrides the stored field
  also when its value is \<open>undefined\<close>; \<open>Some None\<close> is such a key, \<open>None\<close> an absent key.
\<close>

record StreamStatePatch =
  set_error :: "StreamError option option"
  set_messageSoFar :: "string option option"
  set_streamingToken :: "string option option"

definition noPatch :: StreamStatePatch where
  "noPatch = \<lparr>set_error = None, set_messageSoFar = None, set_streamingToken = None\<rparr>"

definition emptyEntry :: ThreadStreamEntry where
  "emptyEntry = \<lparr>error = None, messageSoFar = None, streamingToken = None\<rparr>"

definition setStreamState ::
  "string \<Rightarrow> StreamStatePatch \<Rightarrow> 'r ChatThreadService \<Rightarrow> 'r ChatThreadService" where
  "setStreamState threadId patch w =
     (let old = (case streamState w threadId of None \<Rightarrow> emptyEntry | Some e \<Rightarrow> e);
          new = \<lparr>error = (case set_error patch of None \<Rightarrow> error old | Some v \<Rightarrow> v),
                 messageSoFar = (case set_messageSoFar patch of None \<Rightarrow> messageSoFar old | Some v \<Rightarrow> v),
                 streamingToken =
                   (case set_streamingToken patch of None \<Rightarrow> streamingToken old | Some v \<Rightarrow> v)\<rparr>
      in w\<lparr>streamState := (streamState w)(threadId \<mapsto> new),
            streamStateChanges := streamStateChanges w @ [threadId]\<rparr>)"

text \<open>The reads \<open>this.streamState[threadId]?.field\<close>.\<close>

definition errorOf :: "'r ChatThreadService \<Rightarrow> string \<Rightarrow> StreamError option" where
  "errorOf w threadId = (case streamState w threadId of None \<Rightarrow> None | Some e \<Rightarrow> error e)"

definition messageSoFarOf :: "'r ChatThreadService \<Rightarrow> string \<Rightarrow> string option" where
  "messageSoFarOf w threadId =
     (case streamState w threadId of None \<Rightarrow> None | Some e \<Rightarrow> messageSoFar e)"

definition streamingTokenOf :: "'r ChatThreadService \<Rightarrow> string \<Rightarrow> string option" where
  "streamingTokenOf w threadId =
     (case streamState w threadId of None \<Rightarrow> None | Some e \<Rightarrow> streamingToken e)"

definition getCurrentThread :: "'r ChatThreadService \<Rightarrow> 'r ThreadType option" where
  "getCurrentThread w =
     (case currentThreadId (threadsState w) of
        None \<Rightarrow> None
      | Some k \<Rightarrow> map_of (allThreads (threadsState w)) k)"

definition switchToThread :: "string \<Rightarrow> 'r ChatThreadService \<Rightarrow> 'r ChatThreadService" where
  "switchToThread threadId w = setState None (Some threadId) True w"

text \<open>
  \<open>_addMessageToThread\<close>: reading \<open>oldThread.id\<close> of a missing thread throws a \<open>TypeError\<close>
  before anything is changed.
\<close>

definition addMessageToThread ::
  "('r, 'x) Collaborators \<Rightarrow> string \<Rightarrow> 'r ChatMessage \<Rightarrow> 'r ChatThreadService
     \<Rightarrow> Outcome \<times> 'r ChatThreadService" where
  "addMessageToThread env threadId message w =
     (case map_of (allThreads (threadsState w)) threadId of
        None \<Rightarrow> (Threw ''TypeError'', w)
      | Some oldThread \<Rightarrow>
         (let now = Date_getTime env (dateCalls w);
              w1 = w\<lparr>dateCalls := dateCalls w + 1\<rparr>;
              newThreads =
                AList.update (thread_id oldThread)
                  (oldThread\<lparr>lastModified := now, messages := messages oldThread @ [message]\<rparr>)
                  (allThreads (threadsState w))
          in (Returned, setState (Some newThreads) None True (storeAllThreads newThreads w1))))"

definition finishStreamingTextMessage ::
  "('r, 'x) Collaborators \<Rightarrow> string \<Rightarrow> string \<Rightarrow> StreamError option \<Rightarrow> 'r ChatThreadService
     \<Rightarrow> Outcome \<times> 'r ChatThreadService" where
  "finishStreamingTextMessage env threadId content err w =
     (case addMessageToThread env threadId
             (AssistantMessage (Some content) (if content = [] then None else Some content)) w of
        (Threw e, w1) \<Rightarrow> (Threw e, w1)
      | (Returned, w1) \<Rightarrow>
          (Returned,
           setStreamState threadId
             \<lparr>set_error = Some err, set_messageSoFar = Some None, set_streamingToken = Some None\<rparr>
             w1))"

definition cancelStreaming ::
  "('r, 'x) Collaborators \<Rightarrow> string \<Rightarrow> 'r ChatThreadService \<Rightarrow> Outcome \<times> 'r ChatThreadService" where
  "cancelStreaming env threadId w =
     (let llmCancelToken = streamingTokenOf w threadId;
          w1 = (case llmCancelToken of None \<Rightarrow> w | Some t \<Rightarrow> w\<lparr>aborted := aborted w @ [t]\<rparr>)
      in finishStreamingTextMessage env threadId
           (case messageSoFarOf w1 threadId of None \<Rightarrow> [] | Some m \<Rightarrow> m) None w1)"

definition dismissStreamError :: "string \<Rightarrow> 'r ChatThreadService \<Rightarrow> 'r ChatThreadService" where
  "dismissStreamError threadId w = setStreamState threadId (noPatch\<lparr>set_error := Some None\<rparr>) w"

text \<open>
  \<open>openNewThread\<close>: the \<open>for ... in\<close> loop visits the keys of \<open>allThreads\<close> in the order of the
  enumeration and returns at the first thread without messages.
\<close>

fun findEmptyThread :: "string list \<Rightarrow> 'r ChatThreads \<Rightarrow> string option" where
  "findEmptyThread [] currentThreads = None"
| "findEmptyThread (threadId # rest) currentThreads =
     (case map_of currentThreads threadId of
        Some t \<Rightarrow> if length (messages t) = 0 then Some threadId else findEmptyThread rest currentThreads
      | None \<Rightarrow> findEmptyThread rest currentThreads)"

definition openNewThread ::
  "('r, 'x) Collaborators \<Rightarrow> 'r ChatThreadService \<Rightarrow> 'r ChatThreadService" where
  "openNewThread env w =
     (let currentThreads = allThreads (threadsState w)
      in (case findEmptyThread (map fst currentThreads) currentThreads of
           Some threadId \<Rightarrow> switchToThread threadId w
         | None \<Rightarrow>
             (case newThreadObject env w of (newThread, w1) \<Rightarrow>
               (let newThreads = AList.update (thread_id newThread) newThread currentThreads
                in setState (Some newThreads) (Some (thread_id newThread)) True
                     (storeAllThreads newThreads w1)))))"

text \<open>
  The constructor: the state after the assignment of \<open>this.state\<close>, and the whole
  constructor, which throws when \<open>_readAllThreads\<close> does.
\<close>

definition initialService :: "'r StorageService \<Rightarrow> 'r ChatThreads \<Rightarrow> 'r ChatThreadService" where
  "initialService st threads =
     \<lparr>threadsState = \<lparr>allThreads = threads, currentThreadId = None\<rparr>,
      streamState = Map.empty, storage = st, currentThreadChanges = 0, streamStateChanges = [],
      aborted = [], dateCalls = 0, toolInvocations = [], sentRequests = []\<rparr>"

definition newChatThreadService ::
  "('r, 'x) Collaborators \<Rightarrow> 'r StorageService \<Rightarrow> string + 'r ChatThreadService" where
  "newChatThreadService env st =
     (let oldVersionNum = storedVersion st
      in (case readAllThreads st of
           Inl e \<Rightarrow> Inl e
         | Inr readThreads \<Rightarrow>
            (let updatedThreads = updatedThreadsToVersion readThreads oldVersionNum;
                 st1 = (case updatedThreads of
                          None \<Rightarrow> st
                        | Some u \<Rightarrow> st\<lparr>storedThreads := Some (Json u)\<rparr>);
                 threads = (case updatedThreads of None \<Rightarrow> readThreads | Some u \<Rightarrow> u);
                 w = openNewThread env (initialService st1 threads)
             in Inr (w\<lparr>storage := (storage w)\<lparr>storedVersion := Some LATEST_THREAD_VERSION\<rparr>\<rparr>))))"

section \<open>The agent loop\<close>

text \<open>\<open>c.content || '(empty message)'\<close>: \<open>null\<close> and the empty string are both replaced.\<close>

definition orDefault :: "string option \<Rightarrow> string \<Rightarrow> string" where
  "orDefault c d = (case c of None \<Rightarrow> d | Some x \<Rightarrow> if x = [] then d else x)"

fun toLLMChatMessage :: "'r ChatMessage \<Rightarrow> LLMChatMessage" where
  "toLLMChatMessage (SystemMessage c) = LLMSystem (orDefault (Some c) ''(empty message)'')"
| "toLLMChatMessage (UserMessage c d s st) = LLMUser (orDefault c ''(empty message)'')"
| "toLLMChatMessage (AssistantMessage c d) = LLMAssistant (orDefault c ''(empty message)'')"
| "toLLMChatMessage (ToolMessage n p i c r) = LLMTool (orDefault (Some c) ''(empty output)'') n p i"

fun isLLMUser :: "LLMChatMessage \<Rightarrow> bool" where
  "isLLMUser (LLMUser c) = True"
| "isLLMUser _ = False"

text \<open>\<open>m.role === 'user' && m.selections || []\<close>\<close>

fun selectionsOf :: "'r ChatMessage \<Rightarrow> StagingSelectionItem list" where
  "selectionsOf (UserMessage c d (Some s) st) = s"
| "selectionsOf _ = []"

definition getAllSelections :: "'r ThreadType \<Rightarrow> StagingSelectionItem list" where
  "getAllSelections thread = concat (map selectionsOf (messages thread))"

definition getSelectionsUpToMessageIdx :: "'r ThreadType \<Rightarrow> int \<Rightarrow> StagingSelectionItem list" where
  "getSelectionsUpToMessageIdx thread messageIdx =
     concat (map selectionsOf (slice (messages thread) 0 messageIdx))"

text \<open>
  The \<open>for ... of\<close> loop over the tool calls of a final message. The flag is
  \<open>shouldSendAnotherMessage\<close>; every call of a tool function is recorded in
  \<open>toolInvocations\<close>. A \<open>break\<close> ends the loop with the flag \<open>False\<close>.
\<close>

fun toolLoop ::
  "('r, 'x) Collaborators \<Rightarrow> string \<Rightarrow> ToolCallType list \<Rightarrow> bool \<Rightarrow> 'r ChatThreadService
     \<Rightarrow> Outcome \<times> bool \<times> 'r ChatThreadService" where
  "toolLoop env threadId [] shouldSendAnotherMessage w = (Returned, shouldSendAnotherMessage, w)"
| "toolLoop env threadId (tool # rest) shouldSendAnotherMessage w =
     (let toolName = tc_name tool;
          w1 = w\<lparr>toolInvocations := toolInvocations w @ [(toolName, tc_params tool)]\<rparr>
      in (case toolFns env toolName (tc_params tool) of
           Inl err \<Rightarrow>
             (Returned, False,
              setStreamState threadId (noPatch\<lparr>set_error := Some (Some (CaughtError err))\<rparr>) w1)
         | Inr toolResult \<Rightarrow>
             (case toolResultToString env toolName toolResult of
                Inl err \<Rightarrow>
                  (Returned, False,
                   setStreamState threadId (noPatch\<lparr>set_error := Some (Some (CaughtError err))\<rparr>) w1)
              | Inr toolResultStr \<Rightarrow>
                  (case addMessageToThread env threadId
                          (ToolMessage toolName (tc_params tool) (tc_id tool) toolResultStr
                             (fst toolResult)) w1 of
                     (Threw e, w2) \<Rightarrow> (Threw e, shouldSendAnotherMessage, w2)
                   | (Returned, w2) \<Rightarrow> toolLoop env threadId rest True w2))))"

definition onFinalMessage ::
  "('r, 'x) Collaborators \<Rightarrow> string \<Rightarrow> string \<Rightarrow> ToolCallType list \<Rightarrow> 'r ChatThreadService
     \<Rightarrow> Outcome \<times> bool \<times> 'r ChatThreadService" where
  "onFinalMessage env threadId fullText toolCalls w =
     (if length toolCalls = 0 then
        (case finishStreamingTextMessage env threadId fullText None w of
           (outcome, w1) \<Rightarrow> (outcome, False, w1))
      else
        (case addMessageToThread env threadId (AssistantMessage (Some fullText) (Some fullText)) w of
           (Threw e, w1) \<Rightarrow> (Threw e, False, w1)
         | (Returned, w1) \<Rightarrow>
             toolLoop env threadId toolCalls False
               (setStreamState threadId (noPatch\<lparr>set_messageSoFar := Some None\<rparr>) w1)))"

definition onText :: "string \<Rightarrow> string \<Rightarrow> 'r ChatThreadService \<Rightarrow> 'r ChatThreadService" where
  "onText threadId fullText w =
     setStreamState threadId (noPatch\<lparr>set_messageSoFar := Some (Some fullText)\<rparr>) w"

definition onError ::
  "('r, 'x) Collaborators \<Rightarrow> string \<Rightarrow> string \<Rightarrow> string option \<Rightarrow> 'r ChatThreadService
     \<Rightarrow> Outcome \<times> 'r ChatThreadService" where
  "onError env threadId msg fullError w =
     finishStreamingTextMessage env threadId
       (case messageSoFarOf w threadId of None \<Rightarrow> [] | Some m \<Rightarrow> m)
       (Some (OnErrorInfo msg fullError)) w"

text \<open>
  How a run of the agent loop ends: the loop has left its \<open>while\<close> (\<open>Finished\<close>), it waits
  for a callback that never resolves its promise (\<open>Suspended\<close>), or it threw (\<open>Failed\<close>).
\<close>

datatype LoopStatus = Finished | Suspended | Failed string

definition buildRequest ::
  "('r, 'x) Collaborators \<Rightarrow> string \<Rightarrow> string list option \<Rightarrow> 'r ThreadType \<Rightarrow> LLMRequest" where
  "buildRequest env userMessageFullContent tools thread =
     (let messages' = map toLLMChatMessage (messages thread);
          msgs = (case findLastIndex messages' isLLMUser of
                    None \<Rightarrow> messages'
                  | Some lastUserMsgIdx \<Rightarrow>
                      slice messages' 0 (int lastUserMsgIdx)
                        @ [LLMUser userMessageFullContent]
                        @ slice messages' (int lastUserMsgIdx + 1) (int (length messages')))
      in \<lparr>requestMessages = LLMSystem (chat_systemMessage env (workspaceFolders env)) # msgs,
          requestTools = tools\<rparr>)"

text \<open>
  \<open>agentLoop\<close>: one iteration of the \<open>while\<close> loop per unit of fuel; \<open>None\<close> means that
  the fuel ran out while the loop still wanted to send another message.
\<close>

fun agentLoop ::
  "nat \<Rightarrow> ('r, 'x) Collaborators \<Rightarrow> string \<Rightarrow> string \<Rightarrow> string list option
     \<Rightarrow> 'r ChatThreadService \<Rightarrow> (LoopStatus \<times> 'r ChatThreadService) option" where
  "agentLoop 0 env threadId userMessageFullContent tools w = None"
| "agentLoop (Suc fuel) env threadId userMessageFullContent tools w =
     (case getCurrentThread w of
        None \<Rightarrow> Some (Failed ''TypeError'', w)
      | Some thread \<Rightarrow>
         (let request = buildRequest env userMessageFullContent tools thread;
              w1 = w\<lparr>sentRequests := sentRequests w @ [request]\<rparr>
          in (case sendLLMMessage env (length (sentRequests w)) request of
               ReturnsNull None \<Rightarrow> Some (Finished, w1)
             | ReturnsNull (Some (msg, fullError)) \<Rightarrow>
                 (case onError env threadId msg fullError w1 of
                    (Threw e, w2) \<Rightarrow> Some (Failed e, w2)
                  | (Returned, w2) \<Rightarrow> Some (Finished, w2))
             | Streams llmCancelToken texts ending \<Rightarrow>
                 let w2 = setStreamState threadId
                            (noPatch\<lparr>set_streamingToken := Some (Some llmCancelToken)\<rparr>) w1;
                     w3 = fold (onText threadId) texts w2
                 in (case ending of
                       NoEnding \<Rightarrow> Some (Suspended, w3)
                     | ErrorMessage msg fullError \<Rightarrow>
                         (case onError env threadId msg fullError w3 of
                            (Threw e, w4) \<Rightarrow> Some (Suspended, w4)
                          | (Returned, w4) \<Rightarrow> Some (Finished, w4))
                     | FinalMessage fullText toolCalls \<Rightarrow>
                         (case onFinalMessage env threadId fullText toolCalls w3 of
                            (Threw e, shouldSendAnotherMessage, w4) \<Rightarrow> Some (Suspended, w4)
                          | (Returned, shouldSendAnotherMessage, w4) \<Rightarrow>
                              if shouldSendAnotherMessage
                              then agentLoop fuel env threadId userMessageFullContent tools w4
                              else Some (Finished, w4))))))"

type_synonym ChatSelections =
  "(StagingSelectionItem list option \<times> StagingSelectionItem list option) option"

definition addUserMessageAndStreamResponse ::
  "nat \<Rightarrow> ('r, 'x) Collaborators \<Rightarrow> string \<Rightarrow> ChatMode \<Rightarrow> ChatSelections \<Rightarrow> 'r ChatThreadService
     \<Rightarrow> (Outcome \<times> 'r ChatThreadService) option" where
  "addUserMessageAndStreamResponse fuel env userMessage chatMode chatSelections w =
     (case getCurrentThread w of
        None \<Rightarrow> Some (Threw ''TypeError'', w)
      | Some thread \<Rightarrow>
         (let threadId = thread_id thread;
              prevSelns = (case chatSelections of
                             Some (Some p, c) \<Rightarrow> p
                           | _ \<Rightarrow> getAllSelections thread);
              currSelns = (case chatSelections of
                             Some (p, Some c) \<Rightarrow> Some c
                           | _ \<Rightarrow> map_option threadStagingSelections (thread_state thread))
          in (case currSelns of
               None \<Rightarrow> Some (Threw ''TypeError'', w)
             | Some currSelns' \<Rightarrow>
                (let instructions = userMessage;
                     userMessageContent = chat_userMessageContent env instructions currSelns';
                     selectionsStr = chat_selectionsString env prevSelns currSelns';
                     userMessageFullContent =
                       chat_userMessageContentWithAllFiles env userMessageContent selectionsStr;
                     userHistoryElt =
                       UserMessage (Some userMessageContent) (Some instructions) (Some currSelns')
                         (Some defaultMessageState)
                 in (case addMessageToThread env threadId userHistoryElt w of
                      (Threw e, w1) \<Rightarrow> Some (Threw e, w1)
                    | (Returned, w1) \<Rightarrow>
                       (let w2 = setStreamState threadId (noPatch\<lparr>set_error := Some None\<rparr>) w1;
                            tools = (case chatMode of Chat \<Rightarrow> None | Agent \<Rightarrow> Some (voidTools env))
                        in map_option (\<lambda>(status, w3). (Returned, w3))
                             (agentLoop fuel env threadId userMessageFullContent tools w2)))))))"

text \<open>
  \<open>editUserMessageAndStreamResponse\<close> does not await the call of
  \<open>addUserMessageAndStreamResponse\<close> that it starts: it returns its own outcome, the state it
  leaves, and the call that it started.
\<close>

datatype PendingCall = AddUserMessageAndStreamResponse string ChatMode ChatSelections

definition editError :: string where
  "editError = ''Error: editing a message with role !=='' @ [CHR 0x27] @ ''user'' @ [CHR 0x27]"

definition messageAt :: "'a list \<Rightarrow> int \<Rightarrow> 'a option" where
  "messageAt xs k = (if 0 \<le> k \<and> k < int (length xs) then Some (xs ! nat k) else None)"

definition editUserMessageAndStreamResponse ::
  "string \<Rightarrow> ChatMode \<Rightarrow> int \<Rightarrow> 'r ChatThreadService
     \<Rightarrow> Outcome \<times> 'r ChatThreadService \<times> PendingCall option" where
  "editUserMessageAndStreamResponse userMessage chatMode messageIdx w =
     (case getCurrentThread w of
        None \<Rightarrow> (Threw ''TypeError'', w, None)
      | Some thread \<Rightarrow>
          (case messageAt (messages thread) messageIdx of
             None \<Rightarrow> (Threw editError, w, None)
           | Some m \<Rightarrow>
               if role m \<noteq> RoleUser
               then (Threw editError, w, None)
               else
                (let prevSelns = getSelectionsUpToMessageIdx thread messageIdx;
                     currSelns = selectionsOf m;
                     slicedMessages = slice (messages thread) 0 messageIdx;
                     w1 = setState
                            (Some (AList.update (thread_id thread)
                                     (thread\<lparr>messages := slicedMessages\<rparr>)
                                     (allThreads (threadsState w))))
                            None True w
                 in (Returned, w1,
                     Some (AddUserMessageAndStreamResponse userMessage chatMode
                             (Some (Some prevSelns, Some currSelns)))))))"

fun runPendingCall ::
  "nat \<Rightarrow> ('r, 'x) Collaborators \<Rightarrow> PendingCall \<Rightarrow> 'r ChatThreadService
     \<Rightarrow> (Outcome \<times> 'r ChatThreadService) option" where
  "runPendingCall fuel env (AddUserMessageAndStreamResponse userMessage chatMode chatSelections) w =
     addUserMessageAndStreamResponse fuel env userMessage chatMode chatSelections w"

section \<open>Vocabulary of the properties\<close>

text \<open>
  The operations of the cursor pair as data, so that a property can speak about every
  sequence of them (\<open>deltaInfo\<close> only reads the cursors), and the bounds that every state
  reached from the constructor satisfies.
\<close>

datatype SROp = RemovePrefix string | RemoveSuffix string | RemoveFromStartUntil string bool
  | RemoveCodeBlock | DeltaInfo int

fun applyOp :: "SROp \<Rightarrow> SurroundingsRemover \<Rightarrow> SurroundingsRemover" where
  "applyOp (RemovePrefix p) pm = snd (removePrefix p pm)"
| "applyOp (RemoveSuffix x) pm = snd (removeSuffix x pm)"
| "applyOp (RemoveFromStartUntil u b) pm = snd (removeFromStartUntil u b pm)"
| "applyOp RemoveCodeBlock pm = snd (removeCodeBlock pm)"
| "applyOp (DeltaInfo n) pm = pm"

fun runOps :: "SROp list \<Rightarrow> SurroundingsRemover \<Rightarrow> SurroundingsRemover" where
  "runOps [] pm = pm"
| "runOps (op # ops) pm = runOps ops (applyOp op pm)"

fun isRemoveFromStartUntil :: "SROp \<Rightarrow> bool" where
  "isRemoveFromStartUntil (RemoveFromStartUntil u b) = True"
| "isRemoveFromStartUntil _ = False"

definition inBounds :: "SurroundingsRemover \<Rightarrow> bool" where
  "inBounds pm \<longleftrightarrow> cur_j pm \<le> int (length (originalS pm)) - 1 \<and> cur_i pm \<le> int (length (originalS pm))"

text \<open>
  \<open>stateRank\<close> is the order \<open>writingOriginal < writingFinal < done\<close> of the block states, and
  \<open>advances\<close> compares two results of the block scan index by index. \<open>toolErrorOf\<close> and
  \<open>toolMessageOf\<close> say whether a tool call fails (in the tool function or in the conversion
  of its result) and which tool message a successful call appends. \<open>userMessageAt\<close> is the
  test \<open>thread.messages?.[messageIdx]?.role === 'user'\<close> on the current thread, \<open>keyedById\<close>
  says that every thread of a thread map is stored under its \<open>id\<close>, and \<open>messagesOf\<close> and
  \<open>lastModifiedOf\<close> read the messages and the \<open>lastModified\<close> of a thread. The constants
  \<open>demo...\<close> are the concrete inputs of the instances; the clock of \<open>demoEarlyClockEnv\<close> reads
  \<open>3\<close> at every call.
\<close>

fun stateRank :: "BlockState \<Rightarrow> nat" where
  "stateRank WritingOriginal = 0"
| "stateRank WritingFinal = 1"
| "stateRank Done = 2"

definition blockAdvances :: "ExtractedSearchReplaceBlock \<Rightarrow> ExtractedSearchReplaceBlock \<Rightarrow> bool" where
  "blockAdvances x y \<longleftrightarrow>
     stateRank (state x) \<le> stateRank (state y) \<and>
     (state x = Done \<longrightarrow> orig y = orig x \<and> final y = final x)"

fun advances :: "ExtractedSearchReplaceBlock list \<Rightarrow> ExtractedSearchReplaceBlock list \<Rightarrow> bool" where
  "advances [] ys = True"
| "advances (x # xs) [] = False"
| "advances (x # xs) (y # ys) = (blockAdvances x y \<and> advances xs ys)"

definition callKey :: "ToolCallType \<Rightarrow> string \<times> string" where
  "callKey c = (tc_name c, tc_params c)"

definition toolErrorOf :: "('r, 'x) Collaborators \<Rightarrow> ToolCallType \<Rightarrow> string option" where
  "toolErrorOf env c =
     (case toolFns env (tc_name c) (tc_params c) of
        Inl e \<Rightarrow> Some e
      | Inr r \<Rightarrow> (case toolResultToString env (tc_name c) r of Inl e \<Rightarrow> Some e | Inr s \<Rightarrow> None))"

definition toolMessageOf :: "('r, 'x) Collaborators \<Rightarrow> ToolCallType \<Rightarrow> 'r ChatMessage option" where
  "toolMessageOf env c =
     (case toolFns env (tc_name c) (tc_params c) of
        Inl e \<Rightarrow> None
      | Inr r \<Rightarrow>
          (case toolResultToString env (tc_name c) r of
             Inl e \<Rightarrow> None
           | Inr s \<Rightarrow> Some (ToolMessage (tc_name c) (tc_params c) (tc_id c) s (fst r))))"

definition userMessageAt :: "'r ChatThreadService \<Rightarrow> int \<Rightarrow> bool" where
  "userMessageAt w messageIdx \<longleftrightarrow>
     (case getCurrentThread w of
        None \<Rightarrow> False
      | Some thread \<Rightarrow>
          (case messageAt (messages thread) messageIdx of
             None \<Rightarrow> False
           | Some m \<Rightarrow> role m = RoleUser))"

definition keyedById :: "'r ChatThreads \<Rightarrow> bool" where
  "keyedById threads = list_all (\<lambda>(k, t). thread_id t = k) threads"

definition messagesOf :: "'r ChatThreadService \<Rightarrow> string \<Rightarrow> 'r ChatMessage list" where
  "messagesOf w threadId =
     (case map_of (allThreads (threadsState w)) threadId of None \<Rightarrow> [] | Some t \<Rightarrow> messages t)"

definition demoThread :: "string ThreadType" where
  "demoThread =
     \<lparr>thread_id = ''7'', createdAt = 5, lastModified = 6,
      messages = [UserMessage (Some ''hi'') (Some ''hi'') None (Some defaultMessageState)],
      thread_state = Some defaultThreadState\<rparr>"

definition demoStorage :: "string \<Rightarrow> string StorageService" where
  "demoStorage v = \<lparr>storedVersion = Some v, storedThreads = Some (Json [(''7'', demoThread)])\<rparr>"

definition demoService :: "string ChatThreadService" where
  "demoService =
     \<lparr>threadsState = \<lparr>allThreads = [(''7'', demoThread)], currentThreadId = Some ''7''\<rparr>,
      streamState = [''7'' \<mapsto> \<lparr>error = None, messageSoFar = Some ''par'', streamingToken = Some ''tok''\<rparr>],
      storage = demoStorage ''v2'',
      currentThreadChanges = 0, streamStateChanges = [], aborted = [], dateCalls = 0,
      toolInvocations = [], sentRequests = []\<rparr>"

definition demoCall :: "string \<Rightarrow> string \<Rightarrow> ToolCallType" where
  "demoCall n k = \<lparr>tc_name = n, tc_params = ''a.txt'', tc_id = k\<rparr>"

definition demoEnv :: "(string, unit) Collaborators" where
  "demoEnv =
     \<lparr>Date_getTime = (\<lambda>n. 1000 + n),
      chat_userMessageContent = (\<lambda>s sel. s),
      chat_selectionsString = (\<lambda>p c. []),
      chat_userMessageContentWithAllFiles = (\<lambda>c s. c @ s),
      chat_systemMessage = (\<lambda>folders. ''system''),
      workspaceFolders = [],
      voidTools = [''read_file''],
      toolFns = (\<lambda>n p. if n = ''read_file'' then Inr (''text of '' @ p, ()) else Inl ''unknown tool''),
      toolResultToString = (\<lambda>n r. Inr (fst r)),
      sendLLMMessage = (\<lambda>k req. Streams ''tok'' [''p'']
         (FinalMessage ''reply''
            [demoCall ''read_file'' ''1'', demoCall ''bogus'' ''2'', demoCall ''read_file'' ''3'']))\<rparr>"

definition lastModifiedOf :: "'r ChatThreadService \<Rightarrow> string \<Rightarrow> nat option" where
  "lastModifiedOf w threadId =
     map_option lastModified (map_of (allThreads (threadsState w)) threadId)"

definition demoEarlyClockEnv :: "(string, unit) Collaborators" where
  "demoEarlyClockEnv = demoEnv\<lparr>Date_getTime := (\<lambda>n. 3)\<rparr>"

definition demoEmptyThread :: "string ThreadType" where
  "demoEmptyThread =
     \<lparr>thread_id = ''9'', createdAt = 8, lastModified = 8, messages = [],
      thread_state = Some defaultThreadState\<rparr>"

definition demoServiceWithEmpty :: "string ChatThreadService" where
  "demoServiceWithEmpty =
     demoService\<lparr>threadsState :=
       \<lparr>allThreads = [(''7'', demoThread), (''9'', demoEmptyThread)], currentThreadId = Some ''7''\<rparr>\<rparr>"

definition demoORIGINAL :: string where "demoORIGINAL = ''<<<<<<< ORIGINAL''"

definition demoDIVIDER :: string where "demoDIVIDER = ''=======''"

definition demoFINAL :: string where "demoFINAL = ''>>>>>>> UPDATED''"

definition demoReply :: string where
  "demoReply = demoORIGINAL @ newline @ ''a'' @ newline @ demoDIVIDER @ newline @ ''b''
                 @ newline @ demoFINAL"

section \<open>Termination of the block scan\<close>

text \<open>
  An occurrence found by \<open>indexOf\<close> lies at or after the clamped start position and fits into
  the string, and \<open>ORIGINAL'\<close> is not empty: every round of the loop moves \<open>i\<close> forward
  within the string.
\<close>

lemma firstOccurrence_fits: "firstOccurrence pat xs = Some k \<Longrightarrow> k + length pat \<le> length xs"
proof (induction xs arbitrary: k)
  case Nil
  then show ?case by (simp split: if_splits)
next
  case (Cons x xs)
  show ?case
  proof (cases "prefix pat (x # xs)")
    case True
    with Cons.prems have "k = 0" by simp
    with prefix_length_le[OF True] show ?thesis by simp
  next
    case False
    with Cons.prems obtain k' where "firstOccurrence pat xs = Some k'" "k = Suc k'" by auto
    with Cons.IH show ?thesis by fastforce
  qed
qed

lemma indexOf_bounds:
  assumes "indexOf s pat pos = Some k"
  shows "clampIndex s pos \<le> k" and "k + length pat \<le> length s"
proof -
  from assms obtain k' where k': "firstOccurrence pat (drop (clampIndex s pos) s) = Some k'"
    and k: "k = clampIndex s pos + k'"
    by (auto simp: indexOf_def Let_def)
  show "clampIndex s pos \<le> k" using k by simp
  have "clampIndex s pos \<le> length s" by (simp add: clampIndex_def)
  with firstOccurrence_fits[OF k'] k show "k + length pat \<le> length s" by simp
qed

termination extractLoop
proof (relation "measure (\<lambda>(ORIGINAL, DIVIDER, FINAL, str, i, blocks). length str - i)")
  show "wf (measure (\<lambda>(ORIGINAL, DIVIDER, FINAL, str, i, blocks). length str - i))" by simp
next
  fix ORIGINAL DIVIDER FINAL str :: string and i :: nat
    and blocks :: "ExtractedSearchReplaceBlock list" and a b c :: nat
  assume a: "indexOf str (ORIGINAL' ORIGINAL) (int i) = Some a"
    and b: "indexOf str (DIVIDER' DIVIDER) (int (a + length (ORIGINAL' ORIGINAL))) = Some b"
    and c: "indexOf str (FINAL' FINAL) (int (b + length (DIVIDER' DIVIDER))) = Some c"
  from indexOf_bounds[OF a] have 1: "min i (length str) \<le> a" "a + length (ORIGINAL' ORIGINAL) \<le> length str"
    by (simp_all add: clampIndex_def)
  from indexOf_bounds[OF b] 1 have 2: "a + length (ORIGINAL' ORIGINAL) \<le> b" "b + length (DIVIDER' DIVIDER) \<le> length str"
    by (simp_all add: clampIndex_def)
  from indexOf_bounds[OF c] 2 have 3: "b + length (DIVIDER' DIVIDER) \<le> c" "c + length (FINAL' FINAL) \<le> length str"
    by (simp_all add: clampIndex_def)
  have "0 < length (ORIGINAL' ORIGINAL)" by (simp add: ORIGINAL'_def newline_def)
  with 1 2 3 have "i < c + length (FINAL' FINAL)" by linarith
  with 3 show "((ORIGINAL, DIVIDER, FINAL, str, c + length (FINAL' FINAL),
                 blocks @ [\<lparr>state = Done,
                           orig = substring str (int (a + length (ORIGINAL' ORIGINAL))) (int b),
                           final = substring str (int (b + length (DIVIDER' DIVIDER))) (int c)\<rparr>]),
                (ORIGINAL, DIVIDER, FINAL, str, i, blocks))
               \<in> measure (\<lambda>(ORIGINAL, DIVIDER, FINAL, str, i, blocks). length str - i)"
    by simp
qed

declare extractLoop.simps [simp del]

section \<open>The fenced code block extractor\<close>

text \<open>
  C7. Applied to the fenced block \<open>```js\<close>, \<open>hello\<close>, \<open>```\<close> (three lines separated by a
  newline) with \<open>recentlyAddedTextLen = 5\<close>, \<open>extractCodeFromRegular\<close> returns the live value
  \<open>hello\<close>; the visible delta is the part of the live value that lies in the last five
  characters of the input (\<open>o\<close>), and the withheld suffix is the part of those five characters
  after the live window (the newline and the closing fence).
\<close>

theorem extractCodeFromRegular_hello:
  "extractCodeFromRegular (fence @ ''js'' @ newline @ ''hello'' @ newline @ fence) 5
     = (''hello'', ''o'', newline @ fence) \<and>
   ''o'' @ newline @ fence
     = drop (length (fence @ ''js'' @ newline @ ''hello'' @ newline @ fence) - 5)
         (fence @ ''js'' @ newline @ ''hello'' @ newline @ fence)"
  by code_simp

section \<open>The cursors of the parser\<close>

lemma removePrefix_loop_frame:
  "removePrefix_loop pre pm off = (pm', off') \<Longrightarrow>
     originalS pm' = originalS pm \<and> cur_j pm' = cur_j pm \<and> cur_i pm \<le> cur_i pm' \<and>
     (cur_i pm' = cur_i pm \<or> cur_i pm' \<le> cur_j pm + 1)"
proof (induction pre pm off rule: removePrefix_loop.induct)
  case (1 pre pm offset)
  show ?case
  proof (cases "cur_i pm \<le> cur_j pm \<and> int offset \<le> int (length pre) - 1 \<and>
                 charAt (originalS pm) (cur_i pm) = charAt pre (int offset)")
    case True
    with "1.prems" have "removePrefix_loop pre (pm\<lparr>cur_i := cur_i pm + 1\<rparr>) (offset + 1) = (pm', off')"
      by (simp add: removePrefix_loop.simps[of pre pm offset])
    with "1.IH" True have "originalS pm' = originalS pm \<and> cur_j pm' = cur_j pm \<and> cur_i pm + 1 \<le> cur_i pm' \<and>
     (cur_i pm' = cur_i pm + 1 \<or> cur_i pm' \<le> cur_j pm + 1)" by simp
    with True show ?thesis by auto
  next
    case False
    with "1.prems" have "pm' = pm" by (auto simp: removePrefix_loop.simps[of pre pm offset] split: if_splits)
    then show ?thesis by simp
  qed
qed

lemma removePrefix_frame:
  "removePrefix pre pm = (b, pm') \<Longrightarrow>
     originalS pm' = originalS pm \<and> cur_j pm' = cur_j pm \<and> cur_i pm \<le> cur_i pm' \<and>
     (cur_i pm' = cur_i pm \<or> cur_i pm' \<le> cur_j pm + 1)"
  using removePrefix_loop_frame by (auto simp: removePrefix_def split: prod.splits)

lemma removeSuffix_loop_frame:
  "removeSuffix_loop s suf pm n = (b, pm') \<Longrightarrow>
     originalS pm' = originalS pm \<and> cur_i pm' = cur_i pm \<and> cur_j pm' \<le> cur_j pm"
  by (induction n) (auto split: if_splits)

lemma removeSuffix_frame:
  "removeSuffix suf pm = (b, pm') \<Longrightarrow>
     originalS pm' = originalS pm \<and> cur_i pm' = cur_i pm \<and> cur_j pm' \<le> cur_j pm"
  using removeSuffix_loop_frame by (auto simp: removeSuffix_def Let_def)

lemma removeFromStartUntil_frame:
  "removeFromStartUntil u b pm = (r, pm') \<Longrightarrow>
     originalS pm' = originalS pm \<and> cur_j pm' = cur_j pm"
  by (auto simp: removeFromStartUntil_def split: option.splits if_splits)

lemma removeFromStartUntil_cursor:
  assumes "removeFromStartUntil u b pm = (r, pm')" and "inBounds pm"
  shows "cur_i pm' \<le> int (length (originalS pm))"
    and "cur_i pm \<le> cur_j pm + 1 \<Longrightarrow> cur_i pm \<le> cur_i pm'"
proof -
  show "cur_i pm' \<le> int (length (originalS pm))"
  proof (cases "indexOf (originalS pm) u (cur_i pm)")
    case None
    with assms show ?thesis by (auto simp: removeFromStartUntil_def inBounds_def)
  next
    case (Some k)
    from indexOf_bounds[OF Some] assms Some show ?thesis
      by (auto simp: removeFromStartUntil_def split: if_splits)
  qed
  show "cur_i pm \<le> cur_i pm'" if le: "cur_i pm \<le> cur_j pm + 1"
  proof (cases "indexOf (originalS pm) u (cur_i pm)")
    case None
    with assms le show ?thesis by (auto simp: removeFromStartUntil_def)
  next
    case (Some k)
    from assms(2) have "cur_i pm \<le> int (clampIndex (originalS pm) (cur_i pm))"
      by (auto simp: clampIndex_def inBounds_def)
    with indexOf_bounds(1)[OF Some] have "cur_i pm \<le> int k" by linarith
    with assms Some show ?thesis
      by (auto simp: removeFromStartUntil_def split: if_splits)
  qed
qed

lemma removeCodeBlock_frame:
  assumes "removeCodeBlock pm = (b, pm')" and "inBounds pm"
  shows "originalS pm' = originalS pm \<and> cur_j pm' \<le> cur_j pm \<and> cur_i pm \<le> cur_i pm' \<and>
         cur_i pm' \<le> int (length (originalS pm))"
proof -
  obtain f pm1 where p1: "removePrefix fence pm = (f, pm1)" by (cases "removePrefix fence pm")
  note f1 = removePrefix_frame[OF p1]
  from f1 assms(2) have b1: "inBounds pm1" by (auto simp: inBounds_def)
  show ?thesis
  proof (cases f)
    case False
    with assms(1) p1 have "pm' = pm1" by (simp add: removeCodeBlock_def)
    with f1 b1 show ?thesis by (auto simp: inBounds_def)
  next
    case True
    with p1 have "(0::nat) \<noteq> length fence \<longrightarrow> cur_i pm1 \<noteq> cur_i pm \<or> True" by simp
    obtain r pm2 where p2: "removeFromStartUntil newline True pm1 = (r, pm2)"
      by (cases "removeFromStartUntil newline True pm1")
    obtain e3 pm3 where p3: "removeSuffix fence pm2 = (e3, pm3)" by (cases "removeSuffix fence pm2")
    obtain e4 pm4 where p4: "(if cur_j pm3 = cur_j pm2 then removeSuffix (fence @ newline) pm3
                       else (e3, pm3)) = (e4, pm4)"
      by (cases "(if cur_j pm3 = cur_j pm2 then removeSuffix (fence @ newline) pm3 else (e3, pm3))")
    obtain e5 pm5 where p5: "removeSuffix newline pm4 = (e5, pm5)" by (cases "removeSuffix newline pm4")
    have le1: "cur_i pm1 \<le> cur_j pm1 + 1"
    proof -
      from p1 True obtain off where l: "removePrefix_loop fence pm 0 = (pm1, off)" and "off = length fence"
        by (auto simp: removePrefix_def split: prod.splits)
      have "cur_i pm \<le> cur_j pm"
      proof (rule ccontr)
        assume "\<not> cur_i pm \<le> cur_j pm"
        then have "removePrefix_loop fence pm 0 = (pm, 0)"
          by (subst removePrefix_loop.simps) simp
        with l \<open>off = length fence\<close> show False by (simp add: fence_def)
      qed
      with f1 show ?thesis by auto
    qed
    note f2 = removeFromStartUntil_frame[OF p2]
    note c2 = removeFromStartUntil_cursor[OF p2 b1]
    note f3 = removeSuffix_frame[OF p3]
    have f4: "originalS pm4 = originalS pm3 \<and> cur_i pm4 = cur_i pm3 \<and> cur_j pm4 \<le> cur_j pm3"
    proof (cases "cur_j pm3 = cur_j pm2")
      case True
      with p4 have "removeSuffix (fence @ newline) pm3 = (e4, pm4)" by simp
      from removeSuffix_frame[OF this] show ?thesis .
    next
      case False
      with p4 show ?thesis by simp
    qed
    note f5 = removeSuffix_frame[OF p5]
    from assms(1) p1 True p2 p3 p4 p5 have "pm' = pm4 \<or> pm' = pm5"
      by (auto simp: removeCodeBlock_def Let_def split: if_splits)
    with f1 f2 c2(1) c2(2)[OF le1] f3 f4 f5 show ?thesis by auto
  qed
qed

lemma sublist_substring: "sublist (substring s a b) s"
proof -
  have "sublist (take n (drop m s)) (drop m s)" for n m by simp
  moreover have "sublist (drop m s) s" for m by simp
  ultimately show ?thesis unfolding substring_def Let_def by (meson sublist_order.order_trans)
qed

lemma sublist_val: "sublist (val pm) (originalS pm)"
  by (simp add: val_def sublist_substring)

lemma applyOp_frame:
  assumes "inBounds pm"
  shows "originalS (applyOp op pm) = originalS pm \<and> cur_j (applyOp op pm) \<le> cur_j pm \<and>
         cur_i (applyOp op pm) \<le> int (length (originalS pm)) \<and>
         (\<not> isRemoveFromStartUntil op \<or> cur_i pm \<le> cur_j pm + 1
            \<longrightarrow> cur_i pm \<le> cur_i (applyOp op pm))"
proof (cases op)
  case (RemovePrefix p)
  obtain r pm' where e: "removePrefix p pm = (r, pm')" by (cases "removePrefix p pm")
  from removePrefix_frame[OF e] assms have
    "originalS pm' = originalS pm \<and> cur_j pm' \<le> cur_j pm \<and>
     cur_i pm' \<le> int (length (originalS pm)) \<and> cur_i pm \<le> cur_i pm'"
    unfolding inBounds_def by linarith
  with e RemovePrefix show ?thesis by simp
next
  case (RemoveSuffix x)
  obtain r pm' where e: "removeSuffix x pm = (r, pm')" by (cases "removeSuffix x pm")
  from removeSuffix_frame[OF e] assms have
    "originalS pm' = originalS pm \<and> cur_j pm' \<le> cur_j pm \<and>
     cur_i pm' \<le> int (length (originalS pm)) \<and> cur_i pm \<le> cur_i pm'"
    unfolding inBounds_def by linarith
  with e RemoveSuffix show ?thesis by simp
next
  case (RemoveFromStartUntil u b)
  obtain r pm' where e: "removeFromStartUntil u b pm = (r, pm')"
    by (cases "removeFromStartUntil u b pm")
  from removeFromStartUntil_frame[OF e] removeFromStartUntil_cursor[OF e assms] have
    "originalS pm' = originalS pm \<and> cur_j pm' \<le> cur_j pm \<and>
     cur_i pm' \<le> int (length (originalS pm)) \<and>
     (cur_i pm \<le> cur_j pm + 1 \<longrightarrow> cur_i pm \<le> cur_i pm')"
    by simp
  with e RemoveFromStartUntil show ?thesis by simp
next
  case RemoveCodeBlock
  obtain r pm' where e: "removeCodeBlock pm = (r, pm')" by (cases "removeCodeBlock pm")
  from removeCodeBlock_frame[OF e assms] e RemoveCodeBlock show ?thesis by simp
next
  case (DeltaInfo n)
  with assms show ?thesis by (simp add: inBounds_def)
qed

lemma applyOp_inBounds:
  assumes "inBounds pm"
  shows "inBounds (applyOp op pm)"
  using applyOp_frame[OF assms, of op] assms by (auto simp: inBounds_def)

lemma inBounds_new: "inBounds (newSurroundingsRemover s)"
  by (simp add: inBounds_def newSurroundingsRemover_def)

lemma runOps_inBounds: "inBounds pm \<Longrightarrow> inBounds (runOps ops pm)"
  by (induction ops arbitrary: pm) (simp_all add: applyOp_inBounds)

lemma runOps_originalS: "inBounds pm \<Longrightarrow> originalS (runOps ops pm) = originalS pm"
  by (induction ops arbitrary: pm) (simp_all add: applyOp_inBounds applyOp_frame)

lemma extractCodeFromRegular_runOps:
  "fst (extractCodeFromRegular t n) = val (runOps [RemoveCodeBlock] (newSurroundingsRemover t))"
  by (simp add: extractCodeFromRegular_def Let_def split: prod.splits)

lemma extractCodeFromFIM_runOps:
  "\<exists>ops. fst (extractCodeFromFIM t n m) = val (runOps ops (newSurroundingsRemover t))"
proof -
  define pm where "pm = snd (removeCodeBlock (newSurroundingsRemover t))"
  obtain f pm1 where p: "removePrefix (''<'' @ m @ ''>'') pm = (f, pm1)"
    by (cases "removePrefix (''<'' @ m @ ''>'') pm")
  show ?thesis
  proof (cases f)
    case True
    with p have "fst (extractCodeFromFIM t n m) =
        val (runOps [RemoveCodeBlock, RemovePrefix (''<'' @ m @ ''>''),
                     RemoveSuffix (''</'' @ m @ ''>'')] (newSurroundingsRemover t))"
      by (simp add: extractCodeFromFIM_def Let_def pm_def split: prod.splits)
    then show ?thesis by blast
  next
    case False
    with p have "fst (extractCodeFromFIM t n m) =
        val (runOps [RemoveCodeBlock, RemovePrefix (''<'' @ m @ ''>'')] (newSurroundingsRemover t))"
      by (simp add: extractCodeFromFIM_def Let_def pm_def split: prod.splits)
    then show ?thesis by blast
  qed
qed

text \<open>
  The left cursor can move back. On the string \<open>a\<close>, newline: \<open>removeSuffix\<close> of a newline
  retracts \<open>j\<close> to \<open>0\<close>, \<open>removeFromStartUntil\<close> of the newline (found at index \<open>1\<close>, behind
  \<open>j\<close>) advances \<open>i\<close> to \<open>2\<close>, and a \<open>removeFromStartUntil\<close> of the absent marker \<open>x\<close> then
  sets \<open>i\<close> to \<open>j + 1 = 1\<close>.
\<close>

theorem cursor_can_move_left:
  "cur_i (runOps [RemoveSuffix newline, RemoveFromStartUntil newline True]
            (newSurroundingsRemover (''a'' @ newline))) = 2 \<and>
   cur_i (applyOp (RemoveFromStartUntil ''x'' True)
            (runOps [RemoveSuffix newline, RemoveFromStartUntil newline True]
               (newSurroundingsRemover (''a'' @ newline)))) = 1 \<and>
   cur_i (applyOp (RemoveFromStartUntil ''x'' True)
            (runOps [RemoveSuffix newline, RemoveFromStartUntil newline True]
               (newSurroundingsRemover (''a'' @ newline))))
     < cur_i (runOps [RemoveSuffix newline, RemoveFromStartUntil newline True]
                (newSurroundingsRemover (''a'' @ newline)))"
  by code_simp

text \<open>
  C9 (amended). In every state reached from the constructor by a sequence of
  \<open>removePrefix\<close>, \<open>removeSuffix\<close>, \<open>removeFromStartUntil\<close>, \<open>removeCodeBlock\<close> and \<open>deltaInfo\<close>,
  each further operation leaves the source string unchanged and never increases \<open>j\<close>; it
  never decreases \<open>i\<close> if it is not \<open>removeFromStartUntil\<close>, or if \<open>i \<le> j + 1\<close> holds before
  it; \<open>value()\<close> is always a contiguous substring of the source string, and the live value
  returned by \<open>extractCodeFromRegular\<close> and by \<open>extractCodeFromFIM\<close> is a contiguous substring
  of their input.
\<close>

theorem cursors_step:
  "originalS (applyOp op (runOps ops (newSurroundingsRemover s))) = s \<and>
   cur_j (applyOp op (runOps ops (newSurroundingsRemover s)))
     \<le> cur_j (runOps ops (newSurroundingsRemover s)) \<and>
   (\<not> isRemoveFromStartUntil op \<or>
    cur_i (runOps ops (newSurroundingsRemover s)) \<le> cur_j (runOps ops (newSurroundingsRemover s)) + 1
      \<longrightarrow> cur_i (runOps ops (newSurroundingsRemover s))
            \<le> cur_i (applyOp op (runOps ops (newSurroundingsRemover s)))) \<and>
   sublist (val (applyOp op (runOps ops (newSurroundingsRemover s)))) s \<and>
   sublist (fst (extractCodeFromRegular s n)) s \<and>
   sublist (fst (extractCodeFromFIM s n midTag)) s"
proof -
  define pm where "pm = runOps ops (newSurroundingsRemover s)"
  have ib: "inBounds pm" and os: "originalS pm = s"
    using runOps_inBounds[OF inBounds_new, of ops s] runOps_originalS[OF inBounds_new, of ops s]
    by (simp_all add: pm_def newSurroundingsRemover_def)
  note fr = applyOp_frame[OF ib, of op]
  have v: "sublist (val (runOps ops' (newSurroundingsRemover s))) s" for ops'
    using sublist_val[of "runOps ops' (newSurroundingsRemover s)"]
      runOps_originalS[OF inBounds_new, of ops' s]
    by (simp add: newSurroundingsRemover_def)
  have "sublist (val (applyOp op pm)) s"
    using sublist_val[of "applyOp op pm"] fr os by simp
  moreover have "sublist (fst (extractCodeFromRegular s n)) s"
    using v[of "[RemoveCodeBlock]"] by (simp add: extractCodeFromRegular_runOps)
  moreover have "sublist (fst (extractCodeFromFIM s n midTag)) s"
    using v extractCodeFromFIM_runOps[of s n midTag] by auto
  ultimately show ?thesis using fr os unfolding pm_def[symmetric] by blast
qed

text \<open>
  An instance: after \<open>removeSuffix\<close> of a newline on \<open>a\<close>, newline, the cursors satisfy
  \<open>i \<le> j + 1\<close>, and \<open>removeFromStartUntil\<close> of the newline does not decrease \<open>i\<close>.
\<close>

theorem cursors_step_witness:
  "cur_i (runOps [RemoveSuffix newline] (newSurroundingsRemover (''a'' @ newline)))
     \<le> cur_j (runOps [RemoveSuffix newline] (newSurroundingsRemover (''a'' @ newline))) + 1 \<and>
   cur_i (runOps [RemoveSuffix newline] (newSurroundingsRemover (''a'' @ newline)))
     \<le> cur_i (applyOp (RemoveFromStartUntil newline True)
                (runOps [RemoveSuffix newline] (newSurroundingsRemover (''a'' @ newline))))"
proof -
  have h: "cur_i (runOps [RemoveSuffix newline] (newSurroundingsRemover (''a'' @ newline)))
     \<le> cur_j (runOps [RemoveSuffix newline] (newSurroundingsRemover (''a'' @ newline))) + 1"
    by code_simp
  from cursors_step[of "RemoveFromStartUntil newline True" "[RemoveSuffix newline]" "''a'' @ newline"] h
  show ?thesis by blast
qed

section \<open>Monotonicity of the search/replace blocks\<close>

lemma advances_nth:
  "advances xs ys \<Longrightarrow> length xs \<le> length ys \<and> (\<forall>k<length xs. blockAdvances (xs ! k) (ys ! k))"
proof (induction xs ys rule: advances.induct)
  case (3 x xs y ys)
  then have IH: "length xs \<le> length ys" "\<forall>k<length xs. blockAdvances (xs ! k) (ys ! k)"
    and h: "blockAdvances x y" by simp_all
  show ?case
  proof (intro conjI allI impI)
    show "length (x # xs) \<le> length (y # ys)" using IH by simp
    fix k assume "k < length (x # xs)"
    then show "blockAdvances ((x # xs) ! k) ((y # ys) ! k)"
      using IH h by (cases k) simp_all
  qed
qed simp_all

lemma firstOccurrence_append:
  "firstOccurrence pat xs = Some k \<Longrightarrow> firstOccurrence pat (xs @ ys) = Some k"
proof (induction xs arbitrary: k)
  case Nil
  then have "pat = []" "k = 0" by (simp_all split: if_splits)
  then show ?case by (cases ys) simp_all
next
  case (Cons x xs)
  show ?case
  proof (cases "prefix pat (x # xs)")
    case True
    with Cons.prems have "k = 0" by simp
    moreover from True have "prefix pat ((x # xs) @ ys)" by (rule prefix_prefix)
    ultimately show ?thesis by simp
  next
    case False
    with Cons.prems obtain k' where k': "firstOccurrence pat xs = Some k'" "k = Suc k'" by auto
    from firstOccurrence_fits[OF k'(1)] have "length pat \<le> length (x # xs)" by simp
    with False have "\<not> prefix pat ((x # xs) @ ys)"
      by (metis prefix_length_prefix prefixI)
    with Cons.IH[OF k'(1)] k'(2) show ?thesis by simp
  qed
qed

lemma indexOf_append:
  assumes "indexOf s pat (int i) = Some k" and "pat \<noteq> []"
  shows "indexOf (s @ x) pat (int i) = Some k"
proof -
  from assms(1) obtain k' where k': "firstOccurrence pat (drop (min i (length s)) s) = Some k'"
    and k: "k = min i (length s) + k'"
    by (auto simp: indexOf_def Let_def clampIndex_def)
  have le: "i \<le> length s"
  proof (rule ccontr)
    assume "\<not> i \<le> length s"
    with k' have "firstOccurrence pat [] = Some k'" by simp
    with assms(2) show False by simp
  qed
  with k' have "firstOccurrence pat (drop i s @ x) = Some k'"
    by (simp add: firstOccurrence_append min_def)
  with le k show ?thesis
    by (simp add: indexOf_def Let_def clampIndex_def min_def)
qed

lemma substring_append:
  "a \<le> length s \<Longrightarrow> b \<le> length s \<Longrightarrow> substring (s @ x) (int a) (int b) = substring s (int a) (int b)"
  by (simp add: substring_def Let_def clampIndex_def min_def max_def)

lemma extractLoop_stop1:
  "indexOf str (ORIGINAL' ORIGINAL) (int i) = None \<Longrightarrow>
   extractLoop ORIGINAL DIVIDER FINAL str i blocks = blocks"
  by (subst extractLoop.simps) simp

lemma extractLoop_stop2:
  "indexOf str (ORIGINAL' ORIGINAL) (int i) = Some a \<Longrightarrow>
   indexOf str (DIVIDER' DIVIDER) (int (a + length (ORIGINAL' ORIGINAL))) = None \<Longrightarrow>
   extractLoop ORIGINAL DIVIDER FINAL str i blocks =
     blocks @ [\<lparr>state = WritingOriginal,
                orig = substring str (int (a + length (ORIGINAL' ORIGINAL)))
                         (int (length str) - int (lengthOrZero (endsWithAnyPrefixOf str (DIVIDER' DIVIDER)))),
                final = []\<rparr>]"
  by (subst extractLoop.simps) simp

lemma extractLoop_stop3:
  "indexOf str (ORIGINAL' ORIGINAL) (int i) = Some a \<Longrightarrow>
   indexOf str (DIVIDER' DIVIDER) (int (a + length (ORIGINAL' ORIGINAL))) = Some b \<Longrightarrow>
   indexOf str (FINAL' FINAL) (int (b + length (DIVIDER' DIVIDER))) = None \<Longrightarrow>
   extractLoop ORIGINAL DIVIDER FINAL str i blocks =
     blocks @ [\<lparr>state = WritingFinal,
                orig = substring str (int (a + length (ORIGINAL' ORIGINAL))) (int b),
                final = substring str (int (b + length (DIVIDER' DIVIDER)))
                          (int (length str) - int (lengthOrZero (endsWithAnyPrefixOf str (FINAL' FINAL))))\<rparr>]"
  by (subst extractLoop.simps) simp

lemma extractLoop_continue:
  "indexOf str (ORIGINAL' ORIGINAL) (int i) = Some a \<Longrightarrow>
   indexOf str (DIVIDER' DIVIDER) (int (a + length (ORIGINAL' ORIGINAL))) = Some b \<Longrightarrow>
   indexOf str (FINAL' FINAL) (int (b + length (DIVIDER' DIVIDER))) = Some c \<Longrightarrow>
   extractLoop ORIGINAL DIVIDER FINAL str i blocks =
     extractLoop ORIGINAL DIVIDER FINAL str (c + length (FINAL' FINAL))
       (blocks @ [\<lparr>state = Done,
                  orig = substring str (int (a + length (ORIGINAL' ORIGINAL))) (int b),
                  final = substring str (int (b + length (DIVIDER' DIVIDER))) (int c)\<rparr>])"
  by (subst extractLoop.simps) simp

lemma marker_progress:
  assumes a: "indexOf str (ORIGINAL' ORIGINAL) (int i) = Some a"
    and b: "indexOf str (DIVIDER' DIVIDER) (int (a + length (ORIGINAL' ORIGINAL))) = Some b"
  shows "i < a + length (ORIGINAL' ORIGINAL)"
    and "a + length (ORIGINAL' ORIGINAL) \<le> b"
    and "b + length (DIVIDER' DIVIDER) \<le> length str"
    and "indexOf str (FINAL' FINAL) (int (b + length (DIVIDER' DIVIDER))) = Some c \<Longrightarrow>
           b + length (DIVIDER' DIVIDER) \<le> c \<and> c + length (FINAL' FINAL) \<le> length str"
proof -
  have pos: "0 < length (ORIGINAL' ORIGINAL)" by (simp add: ORIGINAL'_def newline_def)
  from indexOf_bounds[OF a] have 1: "min i (length str) \<le> a" "a + length (ORIGINAL' ORIGINAL) \<le> length str"
    by (simp_all add: clampIndex_def)
  with pos show "i < a + length (ORIGINAL' ORIGINAL)" by linarith
  from indexOf_bounds[OF b] 1 show 2: "a + length (ORIGINAL' ORIGINAL) \<le> b"
    and 3: "b + length (DIVIDER' DIVIDER) \<le> length str"
    by (simp_all add: clampIndex_def)
  show "b + length (DIVIDER' DIVIDER) \<le> c \<and> c + length (FINAL' FINAL) \<le> length str"
    if c: "indexOf str (FINAL' FINAL) (int (b + length (DIVIDER' DIVIDER))) = Some c"
    using indexOf_bounds[OF c] 3 by (simp add: clampIndex_def)
qed

lemma extractLoop_acc:
  "extractLoop ORIGINAL DIVIDER FINAL str i blocks =
     blocks @ extractLoop ORIGINAL DIVIDER FINAL str i []"
proof (induction "length str - i" arbitrary: i blocks rule: less_induct)
  case less
  show ?case
  proof (cases "indexOf str (ORIGINAL' ORIGINAL) (int i)")
    case None
    then show ?thesis by (simp add: extractLoop_stop1)
  next
    case a: (Some a)
    show ?thesis
    proof (cases "indexOf str (DIVIDER' DIVIDER) (int (a + length (ORIGINAL' ORIGINAL)))")
      case None
      with a show ?thesis by (simp add: extractLoop_stop2)
    next
      case b: (Some b)
      show ?thesis
      proof (cases "indexOf str (FINAL' FINAL) (int (b + length (DIVIDER' DIVIDER)))")
        case None
        with a b show ?thesis by (simp add: extractLoop_stop3)
      next
        case c: (Some c)
        from marker_progress(4)[OF a b c] marker_progress(1,2)[OF a b]
        have "length str - (c + length (FINAL' FINAL)) < length str - i" by linarith
        note IH = less[OF this]
        define d where "d = \<lparr>state = Done,
                  orig = substring str (int (a + length (ORIGINAL' ORIGINAL))) (int b),
                  final = substring str (int (b + length (DIVIDER' DIVIDER))) (int c)\<rparr>"
        have "extractLoop ORIGINAL DIVIDER FINAL str i blocks =
              extractLoop ORIGINAL DIVIDER FINAL str (c + length (FINAL' FINAL)) (blocks @ [d])"
          unfolding d_def by (rule extractLoop_continue[OF a b c])
        also have "\<dots> = (blocks @ [d]) @ extractLoop ORIGINAL DIVIDER FINAL str (c + length (FINAL' FINAL)) []"
          by (rule IH)
        also have "\<dots> = blocks @ ([] @ [d]) @ extractLoop ORIGINAL DIVIDER FINAL str (c + length (FINAL' FINAL)) []"
          by simp
        also have "([] @ [d]) @ extractLoop ORIGINAL DIVIDER FINAL str (c + length (FINAL' FINAL)) [] =
                   extractLoop ORIGINAL DIVIDER FINAL str (c + length (FINAL' FINAL)) ([] @ [d])"
          by (rule IH[symmetric])
        also have "\<dots> = extractLoop ORIGINAL DIVIDER FINAL str i []"
          unfolding d_def by (rule extractLoop_continue[OF a b c, symmetric])
        finally show ?thesis .
      qed
    qed
  qed
qed

lemma extractLoop_continue_Cons:
  assumes "indexOf str (ORIGINAL' ORIGINAL) (int i) = Some a"
    and "indexOf str (DIVIDER' DIVIDER) (int (a + length (ORIGINAL' ORIGINAL))) = Some b"
    and "indexOf str (FINAL' FINAL) (int (b + length (DIVIDER' DIVIDER))) = Some c"
  shows "extractLoop ORIGINAL DIVIDER FINAL str i [] =
     \<lparr>state = Done,
      orig = substring str (int (a + length (ORIGINAL' ORIGINAL))) (int b),
      final = substring str (int (b + length (DIVIDER' DIVIDER))) (int c)\<rparr>
     # extractLoop ORIGINAL DIVIDER FINAL str (c + length (FINAL' FINAL)) []"
  by (subst extractLoop_continue[OF assms], subst extractLoop_acc) simp

lemma extractLoop_advances:
  "advances (extractLoop ORIGINAL DIVIDER FINAL S1 i [])
            (extractLoop ORIGINAL DIVIDER FINAL (S1 @ X) i [])"
proof (induction "length S1 - i" arbitrary: i rule: less_induct)
  case less
  let ?S2 = "S1 @ X"
  have ne: "ORIGINAL' ORIGINAL \<noteq> []" "DIVIDER' DIVIDER \<noteq> []" "FINAL' FINAL \<noteq> []"
    by (simp_all add: ORIGINAL'_def DIVIDER'_def FINAL'_def newline_def)
  show ?case
  proof (cases "indexOf S1 (ORIGINAL' ORIGINAL) (int i)")
    case None
    then have "extractLoop ORIGINAL DIVIDER FINAL S1 i [] = []" by (rule extractLoop_stop1)
    then show ?thesis by simp
  next
    case a: (Some a)
    note a2 = indexOf_append[OF a ne(1), of X]
    show ?thesis
    proof (cases "indexOf S1 (DIVIDER' DIVIDER) (int (a + length (ORIGINAL' ORIGINAL)))")
      case None
      from extractLoop_stop2[OF a None, of FINAL "[]"] obtain x where
        l: "extractLoop ORIGINAL DIVIDER FINAL S1 i [] = [x]" and x: "state x = WritingOriginal"
        by simp
      show ?thesis
      proof (cases "indexOf ?S2 (DIVIDER' DIVIDER) (int (a + length (ORIGINAL' ORIGINAL)))")
        case None
        from extractLoop_stop2[OF a2 None, of FINAL "[]"] obtain y where
          "extractLoop ORIGINAL DIVIDER FINAL ?S2 i [] = [y]" by simp
        with l x show ?thesis by (simp add: blockAdvances_def)
      next
        case b2: (Some b)
        show ?thesis
        proof (cases "indexOf ?S2 (FINAL' FINAL) (int (b + length (DIVIDER' DIVIDER)))")
          case None
          from extractLoop_stop3[OF a2 b2 None, of "[]"] obtain y where
            "extractLoop ORIGINAL DIVIDER FINAL ?S2 i [] = [y]" by simp
          with l x show ?thesis by (simp add: blockAdvances_def)
        next
          case c2: (Some c)
          from extractLoop_continue_Cons[OF a2 b2 c2] obtain y ys where
            "extractLoop ORIGINAL DIVIDER FINAL ?S2 i [] = y # ys" by simp
          with l x show ?thesis by (simp add: blockAdvances_def)
        qed
      qed
    next
      case b: (Some b)
      note b2 = indexOf_append[OF b ne(2), of X]
      note p = marker_progress(1,2,3)[OF a b]
      have o: "substring ?S2 (int (a + length (ORIGINAL' ORIGINAL))) (int b) =
               substring S1 (int (a + length (ORIGINAL' ORIGINAL))) (int b)"
        using p by (intro substring_append) simp_all
      show ?thesis
      proof (cases "indexOf S1 (FINAL' FINAL) (int (b + length (DIVIDER' DIVIDER)))")
        case None
        from extractLoop_stop3[OF a b None, of "[]"] obtain x where
          l: "extractLoop ORIGINAL DIVIDER FINAL S1 i [] = [x]" and x: "state x = WritingFinal"
          by simp
        show ?thesis
        proof (cases "indexOf ?S2 (FINAL' FINAL) (int (b + length (DIVIDER' DIVIDER)))")
          case None
          from extractLoop_stop3[OF a2 b2 None, of "[]"] obtain y where
            "extractLoop ORIGINAL DIVIDER FINAL ?S2 i [] = [y]" "state y = WritingFinal" by simp
          with l x show ?thesis by (simp add: blockAdvances_def)
        next
          case c2: (Some c)
          from extractLoop_continue_Cons[OF a2 b2 c2] obtain y ys where
            "extractLoop ORIGINAL DIVIDER FINAL ?S2 i [] = y # ys" "state y = Done" by simp
          with l x show ?thesis by (simp add: blockAdvances_def)
        qed
      next
        case c: (Some c)
        note c2 = indexOf_append[OF c ne(3), of X]
        from marker_progress(4)[OF a b c]
        have pc: "b + length (DIVIDER' DIVIDER) \<le> c" "c + length (FINAL' FINAL) \<le> length S1"
          by simp_all
        have f: "substring ?S2 (int (b + length (DIVIDER' DIVIDER))) (int c) =
                 substring S1 (int (b + length (DIVIDER' DIVIDER))) (int c)"
          using p pc by (intro substring_append) simp_all
        from p pc have "length S1 - (c + length (FINAL' FINAL)) < length S1 - i" by linarith
        note IH = less[OF this]
        show ?thesis
          unfolding extractLoop_continue_Cons[OF a b c] extractLoop_continue_Cons[OF a2 b2 c2] o f
          using IH by (simp add: blockAdvances_def)
      qed
    qed
  qed
qed

text \<open>
  C1. For all strings \<open>S1\<close> and \<open>S2 = S1 + X\<close> (in particular for a non-empty \<open>X\<close>), and for all
  values of the three markers, the result of \<open>extractSearchReplaceBlocks\<close> on \<open>S2\<close> is at least
  as long as the result on \<open>S1\<close>; at every index of the result on \<open>S1\<close> the state of the block
  does not go back in the order \<open>writingOriginal < writingFinal < done\<close>; and a block that is
  \<open>done\<close> in the result on \<open>S1\<close> is \<open>done\<close> with the same \<open>orig\<close> and \<open>final\<close> in the result on
  \<open>S2\<close>.
\<close>

theorem blocks_monotone:
  "let b1 = extractSearchReplaceBlocks ORIGINAL DIVIDER FINAL S1;
       b2 = extractSearchReplaceBlocks ORIGINAL DIVIDER FINAL (S1 @ X)
   in length b1 \<le> length b2 \<and>
      (\<forall>k<length b1.
         stateRank (state (b1 ! k)) \<le> stateRank (state (b2 ! k)) \<and>
         (state (b1 ! k) = Done \<longrightarrow>
            state (b2 ! k) = Done \<and> orig (b2 ! k) = orig (b1 ! k) \<and> final (b2 ! k) = final (b1 ! k)))"
proof -
  define b1 where "b1 = extractSearchReplaceBlocks ORIGINAL DIVIDER FINAL S1"
  define b2 where "b2 = extractSearchReplaceBlocks ORIGINAL DIVIDER FINAL (S1 @ X)"
  have "advances b1 b2"
    unfolding b1_def b2_def extractSearchReplaceBlocks_def by (rule extractLoop_advances)
  from advances_nth[OF this] have len: "length b1 \<le> length b2"
    and k: "\<And>k. k < length b1 \<Longrightarrow> blockAdvances (b1 ! k) (b2 ! k)"
    by simp_all
  have r: "stateRank s = 2 \<longleftrightarrow> s = Done" for s by (cases s) simp_all
  have "stateRank (state (b1 ! k)) \<le> stateRank (state (b2 ! k)) \<and>
         (state (b1 ! k) = Done \<longrightarrow>
            state (b2 ! k) = Done \<and> orig (b2 ! k) = orig (b1 ! k) \<and> final (b2 ! k) = final (b1 ! k))"
    if "k < length b1" for k
  proof -
    from k[OF that] have ba: "stateRank (state (b1 ! k)) \<le> stateRank (state (b2 ! k))"
      "state (b1 ! k) = Done \<longrightarrow> orig (b2 ! k) = orig (b1 ! k) \<and> final (b2 ! k) = final (b1 ! k)"
      by (simp_all add: blockAdvances_def)
    have "state (b2 ! k) = Done" if "state (b1 ! k) = Done"
      using ba(1) that by (cases "state (b2 ! k)") simp_all
    with ba show ?thesis by blast
  qed
  with len show ?thesis unfolding Let_def b1_def b2_def by blast
qed

text \<open>
  An instance with the markers \<open><<<<<<< ORIGINAL\<close>, \<open>=======\<close> and \<open>>>>>>>> UPDATED\<close>: a reply
  with one finished block, extended by the start of a second block.
\<close>

theorem blocks_monotone_witness:
  "0 < length (extractSearchReplaceBlocks demoORIGINAL demoDIVIDER demoFINAL demoReply) \<and>
   state (extractSearchReplaceBlocks demoORIGINAL demoDIVIDER demoFINAL demoReply ! 0) = Done \<and>
   length (extractSearchReplaceBlocks demoORIGINAL demoDIVIDER demoFINAL demoReply)
     \<le> length (extractSearchReplaceBlocks demoORIGINAL demoDIVIDER demoFINAL
                  (demoReply @ newline @ demoORIGINAL @ newline @ ''c'')) \<and>
   state (extractSearchReplaceBlocks demoORIGINAL demoDIVIDER demoFINAL
            (demoReply @ newline @ demoORIGINAL @ newline @ ''c'') ! 0) = Done \<and>
   orig (extractSearchReplaceBlocks demoORIGINAL demoDIVIDER demoFINAL
            (demoReply @ newline @ demoORIGINAL @ newline @ ''c'') ! 0) = ''a'' \<and>
   final (extractSearchReplaceBlocks demoORIGINAL demoDIVIDER demoFINAL
            (demoReply @ newline @ demoORIGINAL @ newline @ ''c'') ! 0) = ''b''"
proof -
  have e: "extractSearchReplaceBlocks demoORIGINAL demoDIVIDER demoFINAL demoReply
             = [\<lparr>state = Done, orig = ''a'', final = ''b''\<rparr>]"
    by code_simp
  from blocks_monotone[of demoORIGINAL demoDIVIDER demoFINAL demoReply
      "newline @ demoORIGINAL @ newline @ ''c''"]
  show ?thesis unfolding e Let_def by simp
qed

section \<open>Appending a message\<close>

lemma addMessageToThread_effect:
  assumes "map_of (allThreads (threadsState w)) threadId = Some t"
  shows "addMessageToThread env threadId m w =
    (Returned,
     w\<lparr>dateCalls := dateCalls w + 1,
       storage := (storage w)\<lparr>storedThreads :=
         Some (Json (AList.update (thread_id t)
           (t\<lparr>lastModified := Date_getTime env (dateCalls w), messages := messages t @ [m]\<rparr>)
           (allThreads (threadsState w))))\<rparr>,
       threadsState := (threadsState w)\<lparr>allThreads :=
         AList.update (thread_id t)
           (t\<lparr>lastModified := Date_getTime env (dateCalls w), messages := messages t @ [m]\<rparr>)
           (allThreads (threadsState w))\<rparr>,
       currentThreadChanges := currentThreadChanges w + 1\<rparr>)"
  using assms by (simp add: addMessageToThread_def Let_def setState_def storeAllThreads_def)

lemma demo_thread: "map_of (allThreads (threadsState demoService)) ''7'' = Some demoThread"
  by (simp add: demoService_def)

lemma demo_thread_id: "thread_id demoThread = ''7''"
  by (simp add: demoThread_def)

text \<open>
  \<open>lastModified\<close> can go down: \<open>_addMessageToThread\<close> writes the reading of the clock without
  comparing it with the stored value. Thread \<open>7\<close> of the example service has
  \<open>lastModified = 6\<close>; with a clock that reads \<open>3\<close> the call returns and leaves
  \<open>lastModified = 3\<close>.
\<close>

theorem appendMessage_lastModified_can_decrease:
  "lastModifiedOf demoService ''7'' = Some 6 \<and>
   fst (addMessageToThread demoEarlyClockEnv ''7'' (AssistantMessage (Some ''ok'') (Some ''ok''))
          demoService) = Returned \<and>
   lastModifiedOf
     (snd (addMessageToThread demoEarlyClockEnv ''7'' (AssistantMessage (Some ''ok'') (Some ''ok''))
             demoService)) ''7'' = Some 3"
  by code_simp

text \<open>
  C5 (amended). For a thread stored under its id and a message, after \<open>_addMessageToThread\<close>
  the message list of the thread is the previous list with the message appended at the end,
  the last message is the appended one, \<open>lastModified\<close> is the reading of the clock taken by
  the call (so it is not below its previous value exactly when that reading is not below
  it), the stored thread map is the updated thread map when the operation returns, and the
  current-thread-changed event has fired once more.
\<close>

theorem appendMessage_roundtrip:
  assumes "map_of (allThreads (threadsState w)) threadId = Some t"
    and "thread_id t = threadId"
  shows "\<exists>w' t'. addMessageToThread env threadId m w = (Returned, w') \<and>
           map_of (allThreads (threadsState w')) threadId = Some t' \<and>
           messages t' = messages t @ [m] \<and>
           last (messages t') = m \<and>
           lastModified t' = Date_getTime env (dateCalls w) \<and>
           (lastModified t \<le> lastModified t') = (lastModified t \<le> Date_getTime env (dateCalls w)) \<and>
           storedThreads (storage w') = Some (Json (allThreads (threadsState w'))) \<and>
           currentThreadChanges w' = currentThreadChanges w + 1"
  using assms by (simp add: addMessageToThread_effect[OF assms(1)] AList.update_conv')

text \<open>
  An instance: an assistant message appended to the thread \<open>7\<close> of the example service, whose
  clock reads \<open>1000\<close> at this call.
\<close>

theorem appendMessage_roundtrip_witness:
  "map_of (allThreads (threadsState demoService)) ''7'' = Some demoThread \<and>
   thread_id demoThread = ''7'' \<and>
   (\<exists>w' t'. addMessageToThread demoEnv ''7'' (AssistantMessage (Some ''ok'') (Some ''ok'')) demoService
              = (Returned, w') \<and>
      map_of (allThreads (threadsState w')) ''7'' = Some t' \<and>
      messages t' = messages demoThread @ [AssistantMessage (Some ''ok'') (Some ''ok'')] \<and>
      last (messages t') = AssistantMessage (Some ''ok'') (Some ''ok'') \<and>
      lastModified t' = 1000 \<and>
      storedThreads (storage w') = Some (Json (allThreads (threadsState w'))) \<and>
      currentThreadChanges w' = currentThreadChanges demoService + 1)"
proof -
  have c: "Date_getTime demoEnv (dateCalls demoService) = 1000"
    by (simp add: demoEnv_def demoService_def)
  from appendMessage_roundtrip[OF demo_thread demo_thread_id, of demoEnv
      "AssistantMessage (Some ''ok'') (Some ''ok'')"]
  obtain w' t' where r:
    "addMessageToThread demoEnv ''7'' (AssistantMessage (Some ''ok'') (Some ''ok'')) demoService
       = (Returned, w')"
    "map_of (allThreads (threadsState w')) ''7'' = Some t'"
    "messages t' = messages demoThread @ [AssistantMessage (Some ''ok'') (Some ''ok'')]"
    "last (messages t') = AssistantMessage (Some ''ok'') (Some ''ok'')"
    "lastModified t' = Date_getTime demoEnv (dateCalls demoService)"
    "storedThreads (storage w') = Some (Json (allThreads (threadsState w')))"
    "currentThreadChanges w' = currentThreadChanges demoService + 1"
    by blast
  have "\<exists>w' t'. addMessageToThread demoEnv ''7'' (AssistantMessage (Some ''ok'') (Some ''ok'')) demoService
              = (Returned, w') \<and>
      map_of (allThreads (threadsState w')) ''7'' = Some t' \<and>
      messages t' = messages demoThread @ [AssistantMessage (Some ''ok'') (Some ''ok'')] \<and>
      last (messages t') = AssistantMessage (Some ''ok'') (Some ''ok'') \<and>
      lastModified t' = 1000 \<and>
      storedThreads (storage w') = Some (Json (allThreads (threadsState w'))) \<and>
      currentThreadChanges w' = currentThreadChanges demoService + 1"
    using r unfolding c by (intro exI[of _ w'] exI[of _ t']) simp
  with demo_thread demo_thread_id show ?thesis by blast
qed

section \<open>Dismissing a stream error\<close>

text \<open>
  C10. For every thread id, \<open>dismissStreamError\<close> sets the \<open>error\<close> of the stream state of that
  thread to \<open>undefined\<close>; the \<open>messageSoFar\<close> and \<open>streamingToken\<close> of the thread, the stream
  states of all other threads, the thread state (\<open>allThreads\<close> and \<open>currentThreadId\<close>) and the
  storage are unchanged, no current-thread-changed event fires, and exactly one
  stream-state-changed event fires, carrying that thread id.
\<close>

theorem dismissStreamError_frame:
  "errorOf (dismissStreamError threadId w) threadId = None \<and>
   messageSoFarOf (dismissStreamError threadId w) threadId = messageSoFarOf w threadId \<and>
   streamingTokenOf (dismissStreamError threadId w) threadId = streamingTokenOf w threadId \<and>
   (\<forall>other. other \<noteq> threadId \<longrightarrow>
      streamState (dismissStreamError threadId w) other = streamState w other) \<and>
   threadsState (dismissStreamError threadId w) = threadsState w \<and>
   storage (dismissStreamError threadId w) = storage w \<and>
   currentThreadChanges (dismissStreamError threadId w) = currentThreadChanges w \<and>
   streamStateChanges (dismissStreamError threadId w) = streamStateChanges w @ [threadId]"
  by (simp add: dismissStreamError_def setStreamState_def Let_def errorOf_def messageSoFarOf_def
      streamingTokenOf_def noPatch_def emptyEntry_def split: option.splits)

text \<open>An instance: dismissing the error of thread \<open>7\<close> leaves the stream state of thread \<open>8\<close>.\<close>

theorem dismissStreamError_frame_witness:
  "''8'' \<noteq> ''7'' \<and>
   streamState (dismissStreamError ''7'' demoService) ''8'' = streamState demoService ''8''"
  using dismissStreamError_frame[of "''7''" demoService] by simp

section \<open>Opening a thread\<close>

lemma findEmptyThread_Some:
  "findEmptyThread ks ts = Some k \<Longrightarrow> k \<in> set ks \<and> (\<exists>t. map_of ts k = Some t \<and> messages t = [])"
  by (induction ks) (auto split: option.splits if_splits)

lemma findEmptyThread_None:
  "findEmptyThread ks ts = None \<Longrightarrow> k \<in> set ks \<Longrightarrow> map_of ts k = Some t \<Longrightarrow> messages t \<noteq> []"
  by (induction ks) (auto split: option.splits if_splits)

lemma findEmptyThread_exists:
  "(\<exists>k. findEmptyThread (map fst ts) ts = Some k) \<longleftrightarrow>
   (\<exists>k t. map_of ts k = Some t \<and> messages t = [])"
proof
  assume "\<exists>k. findEmptyThread (map fst ts) ts = Some k"
  then show "\<exists>k t. map_of ts k = Some t \<and> messages t = []"
    using findEmptyThread_Some by blast
next
  assume "\<exists>k t. map_of ts k = Some t \<and> messages t = []"
  then obtain k t where kt: "map_of ts k = Some t" "messages t = []" by blast
  from map_of_SomeD[OF kt(1)] have "k \<in> set (map fst ts)" by force
  show "\<exists>k. findEmptyThread (map fst ts) ts = Some k"
  proof (cases "findEmptyThread (map fst ts) ts")
    case None
    from findEmptyThread_None[OF None \<open>k \<in> set (map fst ts)\<close> kt(1)] kt(2) show ?thesis by simp
  next
    case (Some a)
    then show ?thesis by blast
  qed
qed

text \<open>
  C6. When some thread has no messages, \<open>openNewThread\<close> switches to such a thread and creates
  nothing (thread map and storage are unchanged); otherwise it creates a thread without
  messages whose id is the decimal text of a reading of the clock, stores the updated thread
  map and switches to the new thread. In both cases \<open>currentThreadId\<close> names a thread of
  \<open>allThreads\<close> afterwards.
\<close>

theorem openNewThread_names_thread:
  "((\<exists>k t. map_of (allThreads (threadsState w)) k = Some t \<and> messages t = []) \<longrightarrow>
      allThreads (threadsState (openNewThread env w)) = allThreads (threadsState w) \<and>
      storage (openNewThread env w) = storage w \<and>
      (\<exists>k t. currentThreadId (threadsState (openNewThread env w)) = Some k \<and>
             map_of (allThreads (threadsState w)) k = Some t \<and> messages t = [])) \<and>
   (\<not> (\<exists>k t. map_of (allThreads (threadsState w)) k = Some t \<and> messages t = []) \<longrightarrow>
      currentThreadId (threadsState (openNewThread env w))
        = Some (toString (Date_getTime env (dateCalls w + 1))) \<and>
      allThreads (threadsState (openNewThread env w))
        = AList.update (toString (Date_getTime env (dateCalls w + 1)))
            (fst (newThreadObject env w)) (allThreads (threadsState w)) \<and>
      thread_id (fst (newThreadObject env w)) = toString (Date_getTime env (dateCalls w + 1)) \<and>
      messages (fst (newThreadObject env w)) = [] \<and>
      storedThreads (storage (openNewThread env w))
        = Some (Json (allThreads (threadsState (openNewThread env w))))) \<and>
   (\<exists>k t. currentThreadId (threadsState (openNewThread env w)) = Some k \<and>
          map_of (allThreads (threadsState (openNewThread env w))) k = Some t)"
proof -
  define ts where "ts = allThreads (threadsState w)"
  define w' where "w' = openNewThread env w"
  define newId where "newId = toString (Date_getTime env (dateCalls w + 1))"
  have "((\<exists>k t. map_of ts k = Some t \<and> messages t = []) \<longrightarrow>
            allThreads (threadsState w') = ts \<and> storage w' = storage w \<and>
            (\<exists>k t. currentThreadId (threadsState w') = Some k \<and> map_of ts k = Some t \<and> messages t = [])) \<and>
         (\<not> (\<exists>k t. map_of ts k = Some t \<and> messages t = []) \<longrightarrow>
            currentThreadId (threadsState w') = Some newId \<and>
            allThreads (threadsState w') = AList.update newId (fst (newThreadObject env w)) ts \<and>
            thread_id (fst (newThreadObject env w)) = newId \<and>
            messages (fst (newThreadObject env w)) = [] \<and>
            storedThreads (storage w') = Some (Json (allThreads (threadsState w')))) \<and>
         (\<exists>k t. currentThreadId (threadsState w') = Some k \<and>
                map_of (allThreads (threadsState w')) k = Some t)"
  proof (cases "findEmptyThread (map fst ts) ts")
    case None
    with findEmptyThread_exists[of ts] have no: "\<not> (\<exists>k t. map_of ts k = Some t \<and> messages t = [])"
      by simp
    from None have
      "currentThreadId (threadsState w') = Some newId"
      "allThreads (threadsState w') = AList.update newId (fst (newThreadObject env w)) ts"
      "thread_id (fst (newThreadObject env w)) = newId"
      "messages (fst (newThreadObject env w)) = []"
      "storedThreads (storage w') = Some (Json (allThreads (threadsState w')))"
      unfolding w'_def newId_def ts_def
      by (simp_all add: openNewThread_def Let_def newThreadObject_def setState_def
          storeAllThreads_def ts_def[symmetric])
    moreover from this have "\<exists>k t. currentThreadId (threadsState w') = Some k \<and>
                  map_of (allThreads (threadsState w')) k = Some t"
      by (auto simp: AList.update_conv')
    ultimately show ?thesis using no by blast
  next
    case (Some k)
    from findEmptyThread_Some[OF Some] obtain t where t: "map_of ts k = Some t" "messages t = []"
      by blast
    from Some have
      "allThreads (threadsState w') = ts" "storage w' = storage w"
      "currentThreadId (threadsState w') = Some k"
      unfolding w'_def ts_def
      by (simp_all add: openNewThread_def Let_def switchToThread_def setState_def ts_def[symmetric])
    with t show ?thesis by auto
  qed
  then show ?thesis unfolding ts_def w'_def newId_def .
qed

text \<open>
  Two instances: the example service, whose only thread has a message, gets the new thread
  \<open>1001\<close>; with an empty thread \<open>9\<close> present, the thread map stays as it is.
\<close>

theorem openNewThread_names_thread_witness:
  "\<not> (\<exists>k t. map_of (allThreads (threadsState demoService)) k = Some t \<and> messages t = []) \<and>
   currentThreadId (threadsState (openNewThread demoEnv demoService)) = Some ''1001'' \<and>
   (\<exists>k t. map_of (allThreads (threadsState demoServiceWithEmpty)) k = Some t \<and> messages t = []) \<and>
   allThreads (threadsState (openNewThread demoEnv demoServiceWithEmpty))
     = allThreads (threadsState demoServiceWithEmpty) \<and>
   (\<exists>k t. currentThreadId (threadsState (openNewThread demoEnv demoServiceWithEmpty)) = Some k \<and>
          map_of (allThreads (threadsState demoServiceWithEmpty)) k = Some t \<and> messages t = [])"
proof -
  have h1: "\<not> (\<exists>k t. map_of (allThreads (threadsState demoService)) k = Some t \<and> messages t = [])"
    by (auto simp: demoService_def demoThread_def split: if_splits)
  have h2: "\<exists>k t. map_of (allThreads (threadsState demoServiceWithEmpty)) k = Some t \<and> messages t = []"
    by (intro exI[of _ "''9''"] exI[of _ demoEmptyThread])
       (simp add: demoServiceWithEmpty_def demoEmptyThread_def)
  have n: "toString (Date_getTime demoEnv (dateCalls demoService + 1)) = ''1001''"
    by (simp add: demoEnv_def demoService_def toString.simps digitChar_def)
  from openNewThread_names_thread[of demoService demoEnv] h1 n
  have a: "currentThreadId (threadsState (openNewThread demoEnv demoService)) = Some ''1001''"
    by simp
  from openNewThread_names_thread[of demoServiceWithEmpty demoEnv] h2
  have b: "allThreads (threadsState (openNewThread demoEnv demoServiceWithEmpty))
             = allThreads (threadsState demoServiceWithEmpty)"
    "\<exists>k t. currentThreadId (threadsState (openNewThread demoEnv demoServiceWithEmpty)) = Some k \<and>
          map_of (allThreads (threadsState demoServiceWithEmpty)) k = Some t \<and> messages t = []"
    by blast+
  from h1 h2 a b show ?thesis by blast
qed

section \<open>Threads are stored under their ids\<close>

text \<open>
  Every operation that writes the thread map writes a thread under its own \<open>id\<close>, so a thread
  map in which every thread is stored under its id stays so.
\<close>

lemma keyedById_update:
  "keyedById threads \<Longrightarrow> thread_id t = k \<Longrightarrow> keyedById (AList.update k t threads)"
  by (induction threads) (auto simp: keyedById_def)

lemma keyedById_lookup:
  "keyedById threads \<Longrightarrow> map_of threads k = Some t \<Longrightarrow> thread_id t = k"
  by (induction threads) (auto simp: keyedById_def split: if_splits)

lemma keyedById_addMessageToThread:
  assumes "keyedById (allThreads (threadsState w))"
  shows "keyedById (allThreads (threadsState (snd (addMessageToThread env threadId m w))))"
proof (cases "map_of (allThreads (threadsState w)) threadId")
  case None
  with assms show ?thesis by (simp add: addMessageToThread_def)
next
  case (Some t)
  from addMessageToThread_effect[OF Some, of env m] assms show ?thesis
    by (simp add: keyedById_update)
qed

lemma keyedById_openNewThread:
  assumes "keyedById (allThreads (threadsState w))"
  shows "keyedById (allThreads (threadsState (openNewThread env w)))"
proof (cases "findEmptyThread (map fst (allThreads (threadsState w))) (allThreads (threadsState w))")
  case None
  with assms show ?thesis
    by (simp add: openNewThread_def Let_def newThreadObject_def setState_def storeAllThreads_def
        keyedById_update)
next
  case (Some k)
  with assms show ?thesis
    by (simp add: openNewThread_def Let_def switchToThread_def setState_def)
qed

lemma keyedById_edit:
  assumes "keyedById (allThreads (threadsState w))"
  shows "keyedById (allThreads (threadsState
           (fst (snd (editUserMessageAndStreamResponse userMessage chatMode messageIdx w)))))"
  using assms
  by (auto simp: editUserMessageAndStreamResponse_def Let_def setState_def keyedById_update
      split: option.splits)

section \<open>Migration at load time\<close>

text \<open>
  A stored version tag that is not recognised does not reset the threads: with the tag \<open>v0\<close>
  and one stored thread \<open>7\<close>, the migration returns no update and the service starts with
  the stored thread.
\<close>

theorem unknown_version_keeps_threads:
  "updatedThreadsToVersion [(''7'', demoThread)] (Some ''v0'') = None \<and>
   \<not> isl (newChatThreadService demoEnv (demoStorage ''v0'')) \<and>
   map_of (allThreads (threadsState (projr (newChatThreadService demoEnv (demoStorage ''v0''))))) ''7''
     = Some demoThread \<and>
   allThreads (threadsState (projr (newChatThreadService demoEnv (demoStorage ''v0'')))) \<noteq> []"
  by code_simp

text \<open>
  C3 (amended). At load time, when the stored version tag is a non-empty string other than
  \<open>v1\<close> (a tag that is not recognised, or the current version \<open>v2\<close>), the migration returns no
  update, nothing is written to the stored threads before the first thread is opened, and
  the state of the service is initialised with the threads as they were read.
\<close>

theorem migration_keeps_threads:
  assumes "storedVersion st = Some v" and "v \<noteq> []" and "v \<noteq> ''v1''"
    and "readAllThreads st = Inr ts"
  shows "updatedThreadsToVersion ts (Some v) = None \<and>
         updatedThreadsToVersion ts (Some LATEST_THREAD_VERSION) = None \<and>
         allThreads (threadsState (initialService st ts)) = ts \<and>
         storage (initialService st ts) = st \<and>
         newChatThreadService env st =
           Inr ((openNewThread env (initialService st ts))
                  \<lparr>storage := (storage (openNewThread env (initialService st ts)))
                                 \<lparr>storedVersion := Some LATEST_THREAD_VERSION\<rparr>\<rparr>)"
  using assms
  by (simp add: updatedThreadsToVersion_def LATEST_THREAD_VERSION_def newChatThreadService_def
      initialService_def Let_def)

text \<open>An instance: the current version tag \<open>v2\<close> with one stored thread.\<close>

theorem migration_keeps_threads_witness:
  "storedVersion (demoStorage ''v2'') = Some ''v2'' \<and> ''v2'' \<noteq> [] \<and> ''v2'' \<noteq> ''v1'' \<and>
   readAllThreads (demoStorage ''v2'') = Inr [(''7'', demoThread)] \<and>
   updatedThreadsToVersion [(''7'', demoThread)] (Some ''v2'') = None \<and>
   newChatThreadService demoEnv (demoStorage ''v2'') =
     Inr ((openNewThread demoEnv (initialService (demoStorage ''v2'') [(''7'', demoThread)]))
            \<lparr>storage := (storage (openNewThread demoEnv
                                   (initialService (demoStorage ''v2'') [(''7'', demoThread)])))
                           \<lparr>storedVersion := Some LATEST_THREAD_VERSION\<rparr>\<rparr>)"
proof -
  have h: "storedVersion (demoStorage ''v2'') = Some ''v2''" "''v2'' \<noteq> ([] :: string)"
    "''v2'' \<noteq> ''v1''" "readAllThreads (demoStorage ''v2'') = Inr [(''7'', demoThread)]"
    by (simp_all add: demoStorage_def readAllThreads_def)
  from migration_keeps_threads[OF h, of demoEnv] h show ?thesis by blast
qed

text \<open>
  The branch for a missing tag (\<open>!oldVersion\<close>, under the comment \<open>unknown, just reset chat?\<close>)
  returns \<open>null\<close> as well.
\<close>

lemma missing_version_no_update:
  "updatedThreadsToVersion ts None = None \<and> updatedThreadsToVersion ts (Some []) = None"
  by (simp add: updatedThreadsToVersion_def)

section \<open>Cancelling a stream\<close>

lemma setStreamState_frame:
  "threadsState (setStreamState threadId p w) = threadsState w \<and>
   storage (setStreamState threadId p w) = storage w \<and>
   aborted (setStreamState threadId p w) = aborted w \<and>
   dateCalls (setStreamState threadId p w) = dateCalls w \<and>
   toolInvocations (setStreamState threadId p w) = toolInvocations w \<and>
   sentRequests (setStreamState threadId p w) = sentRequests w \<and>
   currentThreadChanges (setStreamState threadId p w) = currentThreadChanges w"
  by (simp add: setStreamState_def Let_def)

lemma finishStreamingTextMessage_effect:
  assumes "map_of (allThreads (threadsState w)) threadId = Some t" and "thread_id t = threadId"
  shows "\<exists>w'. finishStreamingTextMessage env threadId content err w = (Returned, w') \<and>
           aborted w' = aborted w \<and>
           sentRequests w' = sentRequests w \<and>
           toolInvocations w' = toolInvocations w \<and>
           currentThreadId (threadsState w') = currentThreadId (threadsState w) \<and>
           map_of (allThreads (threadsState w')) threadId =
             Some (t\<lparr>lastModified := Date_getTime env (dateCalls w),
                     messages := messages t @
                       [AssistantMessage (Some content) (if content = [] then None else Some content)]\<rparr>) \<and>
           errorOf w' threadId = err \<and>
           messageSoFarOf w' threadId = None \<and>
           streamingTokenOf w' threadId = None"
  using assms
  by (simp add: finishStreamingTextMessage_def addMessageToThread_effect[OF assms(1)]
      setStreamState_def Let_def errorOf_def messageSoFarOf_def streamingTokenOf_def
      AList.update_conv')

lemma cancelStreaming_effect:
  assumes "map_of (allThreads (threadsState w)) threadId = Some t" and "thread_id t = threadId"
  shows "\<exists>w'. cancelStreaming env threadId w = (Returned, w') \<and>
           aborted w' = aborted w @ (case streamingTokenOf w threadId of None \<Rightarrow> [] | Some tok \<Rightarrow> [tok]) \<and>
           map_of (allThreads (threadsState w')) threadId =
             Some (t\<lparr>lastModified := Date_getTime env (dateCalls w),
                     messages := messages t @
                       [AssistantMessage
                          (Some (case messageSoFarOf w threadId of None \<Rightarrow> [] | Some m \<Rightarrow> m))
                          (if (case messageSoFarOf w threadId of None \<Rightarrow> [] | Some m \<Rightarrow> m) = []
                           then None else messageSoFarOf w threadId)]\<rparr>) \<and>
           messageSoFarOf w' threadId = None \<and>
           streamingTokenOf w' threadId = None"
proof -
  define w1 where "w1 = (case streamingTokenOf w threadId of None \<Rightarrow> w
                         | Some tok \<Rightarrow> w\<lparr>aborted := aborted w @ [tok]\<rparr>)"
  have w1: "map_of (allThreads (threadsState w1)) threadId = Some t"
    "messageSoFarOf w1 threadId = messageSoFarOf w threadId"
    "dateCalls w1 = dateCalls w"
    "aborted w1 = aborted w @ (case streamingTokenOf w threadId of None \<Rightarrow> [] | Some tok \<Rightarrow> [tok])"
    using assms by (auto simp: w1_def messageSoFarOf_def split: option.splits)
  have c: "cancelStreaming env threadId w =
        finishStreamingTextMessage env threadId
           (case messageSoFarOf w threadId of None \<Rightarrow> [] | Some m \<Rightarrow> m) None w1"
    by (simp add: cancelStreaming_def Let_def w1_def w1(2)[unfolded w1_def])
  from finishStreamingTextMessage_effect[OF w1(1) assms(2), of env
      "case messageSoFarOf w threadId of None \<Rightarrow> [] | Some m \<Rightarrow> m" None]
  show ?thesis unfolding c w1(3,4) by (auto split: option.splits)
qed

text \<open>
  A second call of \<open>cancelStreaming\<close> is not a no-op: in the example service, where thread \<open>7\<close>
  streams with the token \<open>tok\<close> and the text \<open>par\<close> so far, the first call appends the
  assistant message \<open>par\<close> and the second call appends a further, empty assistant message.
\<close>

theorem cancelStreaming_second_call_appends:
  "messagesOf (snd (cancelStreaming demoEnv ''7'' demoService)) ''7''
     = messagesOf demoService ''7'' @ [AssistantMessage (Some ''par'') (Some ''par'')] \<and>
   messagesOf (snd (cancelStreaming demoEnv ''7'' (snd (cancelStreaming demoEnv ''7'' demoService)))) ''7''
     = messagesOf (snd (cancelStreaming demoEnv ''7'' demoService)) ''7''
         @ [AssistantMessage (Some []) None]"
  by code_simp

text \<open>
  C2 (amended). For a thread stored under its id, \<open>cancelStreaming\<close> aborts the transport with
  the stored streaming token if there is one, appends exactly one assistant message whose
  content is the accumulated \<open>messageSoFar\<close> (the empty string if there is none), and clears
  \<open>messageSoFar\<close> and \<open>streamingToken\<close>. A second call on the same thread aborts nothing, leaves
  both fields cleared, and appends one more assistant message, with empty content.
\<close>

theorem cancelStreaming_twice:
  assumes "map_of (allThreads (threadsState w)) threadId = Some t" and "thread_id t = threadId"
  shows "\<exists>w1 t1 w2 t2.
           cancelStreaming env threadId w = (Returned, w1) \<and>
           aborted w1 = aborted w @ (case streamingTokenOf w threadId of None \<Rightarrow> [] | Some tok \<Rightarrow> [tok]) \<and>
           map_of (allThreads (threadsState w1)) threadId = Some t1 \<and>
           messages t1 = messages t @
             [AssistantMessage
                (Some (case messageSoFarOf w threadId of None \<Rightarrow> [] | Some m \<Rightarrow> m))
                (if (case messageSoFarOf w threadId of None \<Rightarrow> [] | Some m \<Rightarrow> m) = []
                 then None else messageSoFarOf w threadId)] \<and>
           messageSoFarOf w1 threadId = None \<and>
           streamingTokenOf w1 threadId = None \<and>
           cancelStreaming env threadId w1 = (Returned, w2) \<and>
           aborted w2 = aborted w1 \<and>
           map_of (allThreads (threadsState w2)) threadId = Some t2 \<and>
           messages t2 = messages t1 @ [AssistantMessage (Some []) None] \<and>
           messageSoFarOf w2 threadId = None \<and>
           streamingTokenOf w2 threadId = None"
proof -
  from cancelStreaming_effect[OF assms, of env] obtain w1 where
    1: "cancelStreaming env threadId w = (Returned, w1)"
       "aborted w1 = aborted w @ (case streamingTokenOf w threadId of None \<Rightarrow> [] | Some tok \<Rightarrow> [tok])"
       "map_of (allThreads (threadsState w1)) threadId =
             Some (t\<lparr>lastModified := Date_getTime env (dateCalls w),
                     messages := messages t @
                       [AssistantMessage
                          (Some (case messageSoFarOf w threadId of None \<Rightarrow> [] | Some m \<Rightarrow> m))
                          (if (case messageSoFarOf w threadId of None \<Rightarrow> [] | Some m \<Rightarrow> m) = []
                           then None else messageSoFarOf w threadId)]\<rparr>)"
       "messageSoFarOf w1 threadId = None" "streamingTokenOf w1 threadId = None"
    by blast
  define t1 where "t1 = t\<lparr>lastModified := Date_getTime env (dateCalls w),
                     messages := messages t @
                       [AssistantMessage
                          (Some (case messageSoFarOf w threadId of None \<Rightarrow> [] | Some m \<Rightarrow> m))
                          (if (case messageSoFarOf w threadId of None \<Rightarrow> [] | Some m \<Rightarrow> m) = []
                           then None else messageSoFarOf w threadId)]\<rparr>"
  have t1: "map_of (allThreads (threadsState w1)) threadId = Some t1" "thread_id t1 = threadId"
    using 1(3) assms(2) by (simp_all add: t1_def)
  from cancelStreaming_effect[OF t1, of env] 1(4,5) obtain w2 where
    2: "cancelStreaming env threadId w1 = (Returned, w2)"
       "aborted w2 = aborted w1"
       "map_of (allThreads (threadsState w2)) threadId =
             Some (t1\<lparr>lastModified := Date_getTime env (dateCalls w1),
                     messages := messages t1 @ [AssistantMessage (Some []) None]\<rparr>)"
       "messageSoFarOf w2 threadId = None" "streamingTokenOf w2 threadId = None"
    by auto
  have m1: "messages t1 = messages t @
             [AssistantMessage
                (Some (case messageSoFarOf w threadId of None \<Rightarrow> [] | Some m \<Rightarrow> m))
                (if (case messageSoFarOf w threadId of None \<Rightarrow> [] | Some m \<Rightarrow> m) = []
                 then None else messageSoFarOf w threadId)]"
    by (simp add: t1_def)
  show ?thesis
    apply (rule exI[of _ w1], rule exI[of _ t1], rule exI[of _ w2])
    apply (rule exI[of _ "t1\<lparr>lastModified := Date_getTime env (dateCalls w1),
                     messages := messages t1 @ [AssistantMessage (Some []) None]\<rparr>"])
    using 1(1,2,4,5) t1(1) m1 2 apply simp
    done
qed

text \<open>An instance: two calls of \<open>cancelStreaming\<close> on thread \<open>7\<close> of the example service.\<close>

theorem cancelStreaming_twice_witness:
  "map_of (allThreads (threadsState demoService)) ''7'' = Some demoThread \<and>
   thread_id demoThread = ''7'' \<and>
   (\<exists>w1 t1 w2 t2.
      cancelStreaming demoEnv ''7'' demoService = (Returned, w1) \<and>
      aborted w1 = [''tok''] \<and>
      map_of (allThreads (threadsState w1)) ''7'' = Some t1 \<and>
      messages t1 = messages demoThread @ [AssistantMessage (Some ''par'') (Some ''par'')] \<and>
      cancelStreaming demoEnv ''7'' w1 = (Returned, w2) \<and>
      aborted w2 = [''tok''] \<and>
      map_of (allThreads (threadsState w2)) ''7'' = Some t2 \<and>
      messages t2 = messages t1 @ [AssistantMessage (Some []) None])"
proof -
  have s: "streamingTokenOf demoService ''7'' = Some ''tok''"
    "messageSoFarOf demoService ''7'' = Some ''par''" "aborted demoService = []"
    by (simp_all add: streamingTokenOf_def messageSoFarOf_def demoService_def)
  from cancelStreaming_twice[OF demo_thread demo_thread_id, of demoEnv]
  obtain w1 t1 w2 t2 where r:
    "cancelStreaming demoEnv ''7'' demoService = (Returned, w1)"
    "aborted w1 = aborted demoService @
       (case streamingTokenOf demoService ''7'' of None \<Rightarrow> [] | Some tok \<Rightarrow> [tok])"
    "map_of (allThreads (threadsState w1)) ''7'' = Some t1"
    "messages t1 = messages demoThread @
       [AssistantMessage
          (Some (case messageSoFarOf demoService ''7'' of None \<Rightarrow> [] | Some m \<Rightarrow> m))
          (if (case messageSoFarOf demoService ''7'' of None \<Rightarrow> [] | Some m \<Rightarrow> m) = []
           then None else messageSoFarOf demoService ''7'')]"
    "cancelStreaming demoEnv ''7'' w1 = (Returned, w2)"
    "aborted w2 = aborted w1"
    "map_of (allThreads (threadsState w2)) ''7'' = Some t2"
    "messages t2 = messages t1 @ [AssistantMessage (Some []) None]"
    by blast
  have "\<exists>w1 t1 w2 t2.
      cancelStreaming demoEnv ''7'' demoService = (Returned, w1) \<and>
      aborted w1 = [''tok''] \<and>
      map_of (allThreads (threadsState w1)) ''7'' = Some t1 \<and>
      messages t1 = messages demoThread @ [AssistantMessage (Some ''par'') (Some ''par'')] \<and>
      cancelStreaming demoEnv ''7'' w1 = (Returned, w2) \<and>
      aborted w2 = [''tok''] \<and>
      map_of (allThreads (threadsState w2)) ''7'' = Some t2 \<and>
      messages t2 = messages t1 @ [AssistantMessage (Some []) None]"
    using r unfolding s
    by (intro exI[of _ w1] exI[of _ t1] exI[of _ w2] exI[of _ t2]) simp
  with demo_thread demo_thread_id show ?thesis by blast
qed

section \<open>Editing a user message\<close>

lemma slice_take: "0 \<le> k \<Longrightarrow> k < int (length xs) \<Longrightarrow> slice xs 0 k = take (nat k) xs"
  by (simp add: slice_def Let_def min_def)

text \<open>
  C8. \<open>editUserMessageAndStreamResponse\<close> throws if and only if the current thread has no
  message with role \<open>user\<close> at \<open>messageIdx\<close>; when it throws, the state of the service is
  unchanged and no call is started; when the message is a user message (of the current
  thread, stored under its id), the call returns, and the state in which
  \<open>addUserMessageAndStreamResponse\<close> is started has the message list of the thread truncated
  to the indices below \<open>messageIdx\<close>.
\<close>

theorem edit_throws_iff:
  "((\<exists>e. fst (editUserMessageAndStreamResponse userMessage chatMode messageIdx w) = Threw e)
      \<longleftrightarrow> \<not> userMessageAt w messageIdx) \<and>
   (\<not> userMessageAt w messageIdx \<longrightarrow>
      snd (editUserMessageAndStreamResponse userMessage chatMode messageIdx w) = (w, None)) \<and>
   (\<forall>t. userMessageAt w messageIdx \<and> getCurrentThread w = Some t \<and>
        currentThreadId (threadsState w) = Some (thread_id t) \<longrightarrow>
        (\<exists>w1 call. editUserMessageAndStreamResponse userMessage chatMode messageIdx w
                     = (Returned, w1, Some call) \<and>
           getCurrentThread w1 = Some (t\<lparr>messages := take (nat messageIdx) (messages t)\<rparr>) \<and>
           call = AddUserMessageAndStreamResponse userMessage chatMode
                    (Some (Some (getSelectionsUpToMessageIdx t messageIdx),
                           Some (selectionsOf (messages t ! nat messageIdx))))))"
proof (intro conjI allI impI)
  show "(\<exists>e. fst (editUserMessageAndStreamResponse userMessage chatMode messageIdx w) = Threw e)
      \<longleftrightarrow> \<not> userMessageAt w messageIdx"
    by (auto simp: editUserMessageAndStreamResponse_def userMessageAt_def Let_def
        split: option.splits)
  show "snd (editUserMessageAndStreamResponse userMessage chatMode messageIdx w) = (w, None)"
    if "\<not> userMessageAt w messageIdx"
    using that
    by (auto simp: editUserMessageAndStreamResponse_def userMessageAt_def Let_def
        split: option.splits)
next
  fix t
  assume a: "userMessageAt w messageIdx \<and> getCurrentThread w = Some t \<and>
        currentThreadId (threadsState w) = Some (thread_id t)"
  then obtain m where m: "messageAt (messages t) messageIdx = Some m" "role m = RoleUser"
    by (auto simp: userMessageAt_def split: option.splits)
  then have idx: "0 \<le> messageIdx" "messageIdx < int (length (messages t))"
    "m = messages t ! nat messageIdx"
    by (auto simp: messageAt_def split: if_splits)
  from a have gc: "getCurrentThread w = Some t"
    and cur: "currentThreadId (threadsState w) = Some (thread_id t)" by simp_all
  define w1 where "w1 = setState
                            (Some (AList.update (thread_id t)
                                     (t\<lparr>messages := take (nat messageIdx) (messages t)\<rparr>)
                                     (allThreads (threadsState w))))
                            None True w"
  have e: "editUserMessageAndStreamResponse userMessage chatMode messageIdx w =
      (Returned, w1, Some (AddUserMessageAndStreamResponse userMessage chatMode
                    (Some (Some (getSelectionsUpToMessageIdx t messageIdx),
                           Some (selectionsOf (messages t ! nat messageIdx))))))"
    using m idx by (simp add: editUserMessageAndStreamResponse_def gc Let_def slice_take w1_def)
  have "getCurrentThread w1 = Some (t\<lparr>messages := take (nat messageIdx) (messages t)\<rparr>)"
    using cur by (simp add: w1_def setState_def getCurrentThread_def AList.update_conv')
  with e show "\<exists>w1 call. editUserMessageAndStreamResponse userMessage chatMode messageIdx w
                     = (Returned, w1, Some call) \<and>
           getCurrentThread w1 = Some (t\<lparr>messages := take (nat messageIdx) (messages t)\<rparr>) \<and>
           call = AddUserMessageAndStreamResponse userMessage chatMode
                    (Some (Some (getSelectionsUpToMessageIdx t messageIdx),
                           Some (selectionsOf (messages t ! nat messageIdx))))"
    by blast
qed

text \<open>
  Two instances on the example service, whose thread has one user message: index \<open>1\<close> throws
  and changes nothing, index \<open>0\<close> returns with the message list truncated to the empty list.
\<close>

theorem edit_throws_iff_witness:
  "\<not> userMessageAt demoService 1 \<and>
   (\<exists>e. fst (editUserMessageAndStreamResponse ''again'' Chat 1 demoService) = Threw e) \<and>
   snd (editUserMessageAndStreamResponse ''again'' Chat 1 demoService) = (demoService, None) \<and>
   userMessageAt demoService 0 \<and> getCurrentThread demoService = Some demoThread \<and>
   currentThreadId (threadsState demoService) = Some (thread_id demoThread) \<and>
   (\<exists>w1 call. editUserMessageAndStreamResponse ''again'' Chat 0 demoService
                 = (Returned, w1, Some call) \<and>
      getCurrentThread w1 = Some (demoThread\<lparr>messages := take (nat 0) (messages demoThread)\<rparr>))"
proof -
  have h1: "\<not> userMessageAt demoService 1"
    by (simp add: userMessageAt_def getCurrentThread_def demoService_def demoThread_def messageAt_def)
  have h0: "userMessageAt demoService 0 \<and> getCurrentThread demoService = Some demoThread \<and>
     currentThreadId (threadsState demoService) = Some (thread_id demoThread)"
    by (simp add: userMessageAt_def getCurrentThread_def demoService_def demoThread_def messageAt_def)
  from edit_throws_iff[of "''again''" Chat 1 demoService] h1
  have a: "\<exists>e. fst (editUserMessageAndStreamResponse ''again'' Chat 1 demoService) = Threw e"
    "snd (editUserMessageAndStreamResponse ''again'' Chat 1 demoService) = (demoService, None)"
    by blast+
  from edit_throws_iff[of "''again''" Chat 0 demoService] h0
  have b: "\<exists>w1 call. editUserMessageAndStreamResponse ''again'' Chat 0 demoService
                 = (Returned, w1, Some call) \<and>
      getCurrentThread w1 = Some (demoThread\<lparr>messages := take (nat 0) (messages demoThread)\<rparr>)"
    by blast
  from h1 h0 a b show ?thesis by blast
qed

section \<open>Tool calls of a final message\<close>

lemma toolLoop_fail:
  assumes "toolErrorOf env c = Some e"
  shows "toolLoop env tid (c # post) flag w =
     (Returned, False,
      setStreamState tid (noPatch\<lparr>set_error := Some (Some (CaughtError e))\<rparr>)
        (w\<lparr>toolInvocations := toolInvocations w @ [callKey c]\<rparr>))"
  using assms
  by (auto simp: toolErrorOf_def callKey_def Let_def split: sum.splits)

lemma toolLoop_ok_step:
  assumes "toolErrorOf env c = None"
    and "map_of (allThreads (threadsState w)) tid = Some t"
  shows "\<exists>m. toolMessageOf env c = Some m \<and>
     toolLoop env tid (c # rest) flag w =
       toolLoop env tid rest True
         (snd (addMessageToThread env tid m (w\<lparr>toolInvocations := toolInvocations w @ [callKey c]\<rparr>)))"
proof -
  from assms(1) obtain r s where r: "toolFns env (tc_name c) (tc_params c) = Inr r"
    and s: "toolResultToString env (tc_name c) r = Inr s"
    by (auto simp: toolErrorOf_def split: sum.splits)
  let ?w1 = "w\<lparr>toolInvocations := toolInvocations w @ [(tc_name c, tc_params c)]\<rparr>"
  have "map_of (allThreads (threadsState ?w1)) tid = Some t" using assms(2) by simp
  note eff = addMessageToThread_effect[OF this, of env]
  show ?thesis
    using r s by (simp add: toolMessageOf_def callKey_def Let_def eff)
qed

lemma toolLoop_prefix:
  assumes "\<forall>p\<in>set pre. toolErrorOf env p = None"
    and "map_of (allThreads (threadsState w)) tid = Some t" and "thread_id t = tid"
  shows "\<exists>w' t'. toolLoop env tid (pre @ rest) flag w = toolLoop env tid rest (flag \<or> pre \<noteq> []) w' \<and>
           toolInvocations w' = toolInvocations w @ map callKey pre \<and>
           map_of (allThreads (threadsState w')) tid = Some t' \<and> thread_id t' = tid \<and>
           messages t' = messages t @ map (the \<circ> toolMessageOf env) pre \<and>
           streamState w' = streamState w \<and> sentRequests w' = sentRequests w \<and>
           currentThreadId (threadsState w') = currentThreadId (threadsState w)"
  using assms
proof (induction pre arbitrary: w t flag)
  case Nil
  then show ?case by (intro exI[of _ w] exI[of _ t]) simp
next
  case (Cons c pre)
  from Cons.prems(1) have okc: "toolErrorOf env c = None" and okpre: "\<forall>p\<in>set pre. toolErrorOf env p = None"
    by simp_all
  let ?w1 = "w\<lparr>toolInvocations := toolInvocations w @ [callKey c]\<rparr>"
  from toolLoop_ok_step[OF okc Cons.prems(2), of "pre @ rest" flag] obtain m where
    m: "toolMessageOf env c = Some m"
    and step: "toolLoop env tid (c # pre @ rest) flag w =
       toolLoop env tid (pre @ rest) True (snd (addMessageToThread env tid m ?w1))"
    by blast
  define w2 where "w2 = snd (addMessageToThread env tid m ?w1)"
  define t2 where "t2 = t\<lparr>lastModified := Date_getTime env (dateCalls w), messages := messages t @ [m]\<rparr>"
  have "map_of (allThreads (threadsState ?w1)) tid = Some t" using Cons.prems(2) by simp
  from addMessageToThread_effect[OF this, of env m] Cons.prems(3)
  have w2: "map_of (allThreads (threadsState w2)) tid = Some t2" "thread_id t2 = tid"
    "toolInvocations w2 = toolInvocations w @ [callKey c]"
    "streamState w2 = streamState w" "sentRequests w2 = sentRequests w"
    "currentThreadId (threadsState w2) = currentThreadId (threadsState w)"
    by (simp_all add: w2_def t2_def AList.update_conv')
  from Cons.IH[OF okpre w2(1,2), of True] obtain w' t' where
    IH: "toolLoop env tid (pre @ rest) True w2 = toolLoop env tid rest (True \<or> pre \<noteq> []) w'"
      "toolInvocations w' = toolInvocations w2 @ map callKey pre"
      "map_of (allThreads (threadsState w')) tid = Some t'" "thread_id t' = tid"
      "messages t' = messages t2 @ map (the \<circ> toolMessageOf env) pre"
      "streamState w' = streamState w2" "sentRequests w' = sentRequests w2"
      "currentThreadId (threadsState w') = currentThreadId (threadsState w2)"
    by blast
  have "toolLoop env tid ((c # pre) @ rest) flag w = toolLoop env tid rest (flag \<or> c # pre \<noteq> []) w'"
    using step IH(1) by (simp add: w2_def)
  moreover have "toolInvocations w' = toolInvocations w @ map callKey (c # pre)"
    using IH(2) w2(3) by simp
  moreover have "messages t' = messages t @ map (the \<circ> toolMessageOf env) (c # pre)"
    using IH(5) m by (simp add: t2_def)
  ultimately show ?case using IH(3,4,6,7,8) w2(4,5,6) by auto
qed

lemma onText_fold_frame:
  "threadsState (fold (onText tid) texts w) = threadsState w \<and>
   toolInvocations (fold (onText tid) texts w) = toolInvocations w \<and>
   sentRequests (fold (onText tid) texts w) = sentRequests w \<and>
   dateCalls (fold (onText tid) texts w) = dateCalls w"
  by (induction texts arbitrary: w) (simp_all add: onText_def setStreamState_frame)

lemma onFinalMessage_tools:
  assumes "map_of (allThreads (threadsState w)) tid = Some t" and "thread_id t = tid"
    and "calls \<noteq> []"
  shows "\<exists>w1 t1. onFinalMessage env tid fullText calls w = toolLoop env tid calls False w1 \<and>
           toolInvocations w1 = toolInvocations w \<and> sentRequests w1 = sentRequests w \<and>
           currentThreadId (threadsState w1) = currentThreadId (threadsState w) \<and>
           map_of (allThreads (threadsState w1)) tid = Some t1 \<and> thread_id t1 = tid \<and>
           messages t1 = messages t @ [AssistantMessage (Some fullText) (Some fullText)]"
proof -
  define m where "m = (AssistantMessage (Some fullText) (Some fullText) :: 'a ChatMessage)"
  define w1 where "w1 = setStreamState tid (noPatch\<lparr>set_messageSoFar := Some None\<rparr>)
                          (snd (addMessageToThread env tid m w))"
  note eff = addMessageToThread_effect[OF assms(1), of env m]
  have "onFinalMessage env tid fullText calls w = toolLoop env tid calls False w1"
    using assms(3) by (simp add: onFinalMessage_def eff w1_def m_def[symmetric])
  moreover have "toolInvocations w1 = toolInvocations w" "sentRequests w1 = sentRequests w"
    "currentThreadId (threadsState w1) = currentThreadId (threadsState w)"
    "map_of (allThreads (threadsState w1)) tid =
       Some (t\<lparr>lastModified := Date_getTime env (dateCalls w), messages := messages t @ [m]\<rparr>)"
    using assms(2) by (simp_all add: w1_def setStreamState_frame eff AList.update_conv')
  ultimately show ?thesis
    using assms(2) unfolding m_def
    by (intro exI[of _ w1]
        exI[of _ "t\<lparr>lastModified := Date_getTime env (dateCalls w),
                    messages := messages t @ [AssistantMessage (Some fullText) (Some fullText)]\<rparr>"])
       simp
qed

text \<open>
  C4. The tool calls of a final message are executed one after the other in the order
  received: when all of them succeed, the tool functions have been called in that order
  and the tool messages follow the assistant message in that order. When a call fails, in
  the tool function or in the conversion of its result to a string, after the calls before
  it succeeded, then the tool functions have been called for exactly the calls up to and
  including the failing one, in order, the error is recorded in the stream state of the
  thread, the agent loop ends with the one request it has sent, for every amount of fuel,
  and the thread holds the assistant message and the tool messages of the earlier calls.
\<close>

theorem tool_failure_stops_turn:
  assumes "map_of (allThreads (threadsState w)) tid = Some t" and "thread_id t = tid"
    and "\<forall>p\<in>set pre. toolErrorOf env p = None"
  shows "(pre \<noteq> [] \<longrightarrow>
           (\<exists>w' t'. onFinalMessage env tid fullText pre w = (Returned, True, w') \<and>
              toolInvocations w' = toolInvocations w @ map callKey pre \<and>
              map_of (allThreads (threadsState w')) tid = Some t' \<and>
              messages t' = messages t @ AssistantMessage (Some fullText) (Some fullText)
                              # map (the \<circ> toolMessageOf env) pre)) \<and>
         (\<forall>e ct. toolErrorOf env c = Some e \<and> getCurrentThread w = Some ct \<and>
            sendLLMMessage env (length (sentRequests w)) (buildRequest env full tools ct)
              = Streams token texts (FinalMessage fullText (pre @ c # post)) \<longrightarrow>
           (\<exists>w' t'. agentLoop (Suc fuel) env tid full tools w = Some (Finished, w') \<and>
              toolInvocations w' = toolInvocations w @ map callKey (pre @ [c]) \<and>
              errorOf w' tid = Some (CaughtError e) \<and>
              sentRequests w' = sentRequests w @ [buildRequest env full tools ct] \<and>
              map_of (allThreads (threadsState w')) tid = Some t' \<and>
              messages t' = messages t @ AssistantMessage (Some fullText) (Some fullText)
                              # map (the \<circ> toolMessageOf env) pre))"
proof (intro conjI impI allI)
  assume ne: "pre \<noteq> []"
  from onFinalMessage_tools[OF assms(1,2) ne, of env fullText] obtain w1 t1 where
    1: "onFinalMessage env tid fullText pre w = toolLoop env tid pre False w1"
      "toolInvocations w1 = toolInvocations w"
      "map_of (allThreads (threadsState w1)) tid = Some t1" "thread_id t1 = tid"
      "messages t1 = messages t @ [AssistantMessage (Some fullText) (Some fullText)]"
    by blast
  from toolLoop_prefix[OF assms(3) 1(3,4), of "[]" False] obtain w' t' where
    2: "toolLoop env tid pre False w1 = toolLoop env tid [] (False \<or> pre \<noteq> []) w'"
      "toolInvocations w' = toolInvocations w1 @ map callKey pre"
      "map_of (allThreads (threadsState w')) tid = Some t'"
      "messages t' = messages t1 @ map (the \<circ> toolMessageOf env) pre"
    by auto
  show "\<exists>w' t'. onFinalMessage env tid fullText pre w = (Returned, True, w') \<and>
              toolInvocations w' = toolInvocations w @ map callKey pre \<and>
              map_of (allThreads (threadsState w')) tid = Some t' \<and>
              messages t' = messages t @ AssistantMessage (Some fullText) (Some fullText)
                              # map (the \<circ> toolMessageOf env) pre"
    using 1 2 ne by (intro exI[of _ w'] exI[of _ t']) simp
next
  fix e ct
  assume a: "toolErrorOf env c = Some e \<and> getCurrentThread w = Some ct \<and>
            sendLLMMessage env (length (sentRequests w)) (buildRequest env full tools ct)
              = Streams token texts (FinalMessage fullText (pre @ c # post))"
  define req where "req = buildRequest env full tools ct"
  define w3 where "w3 = fold (onText tid) texts
     (setStreamState tid (noPatch\<lparr>set_streamingToken := Some (Some token)\<rparr>)
        (w\<lparr>sentRequests := sentRequests w @ [req]\<rparr>))"
  have w3: "map_of (allThreads (threadsState w3)) tid = Some t"
    "toolInvocations w3 = toolInvocations w" "sentRequests w3 = sentRequests w @ [req]"
    using assms(1) by (simp_all add: w3_def onText_fold_frame setStreamState_frame)
  have loop: "agentLoop (Suc fuel) env tid full tools w =
      (case onFinalMessage env tid fullText (pre @ c # post) w3 of
         (Threw e, shouldSendAnotherMessage, w4) \<Rightarrow> Some (Suspended, w4)
       | (Returned, shouldSendAnotherMessage, w4) \<Rightarrow>
           if shouldSendAnotherMessage then agentLoop fuel env tid full tools w4
           else Some (Finished, w4))"
    using a by (simp add: Let_def req_def w3_def)
  from onFinalMessage_tools[OF w3(1) assms(2), of "pre @ c # post" env fullText] obtain w4 t4 where
    4: "onFinalMessage env tid fullText (pre @ c # post) w3 = toolLoop env tid (pre @ c # post) False w4"
      "toolInvocations w4 = toolInvocations w3" "sentRequests w4 = sentRequests w3"
      "map_of (allThreads (threadsState w4)) tid = Some t4" "thread_id t4 = tid"
      "messages t4 = messages t @ [AssistantMessage (Some fullText) (Some fullText)]"
    by auto
  from toolLoop_prefix[OF assms(3) 4(4,5), of "c # post" False] obtain w5 t5 where
    5: "toolLoop env tid (pre @ c # post) False w4 = toolLoop env tid (c # post) (False \<or> pre \<noteq> []) w5"
      "toolInvocations w5 = toolInvocations w4 @ map callKey pre"
      "map_of (allThreads (threadsState w5)) tid = Some t5"
      "messages t5 = messages t4 @ map (the \<circ> toolMessageOf env) pre"
      "sentRequests w5 = sentRequests w4"
    by blast
  define w6 where "w6 = setStreamState tid (noPatch\<lparr>set_error := Some (Some (CaughtError e))\<rparr>)
        (w5\<lparr>toolInvocations := toolInvocations w5 @ [callKey c]\<rparr>)"
  from a have 6: "toolLoop env tid (c # post) (False \<or> pre \<noteq> []) w5 = (Returned, False, w6)"
    unfolding w6_def by (intro toolLoop_fail) simp
  have w6: "toolInvocations w6 = toolInvocations w5 @ [callKey c]"
    "sentRequests w6 = sentRequests w5"
    "map_of (allThreads (threadsState w6)) tid = Some t5"
    "errorOf w6 tid = Some (CaughtError e)"
    using 5(3)
    by (simp_all add: w6_def setStreamState_def Let_def errorOf_def noPatch_def)
  have "agentLoop (Suc fuel) env tid full tools w = Some (Finished, w6)"
    unfolding loop 4(1) 5(1) 6 by simp
  with w6 5 4 w3 show "\<exists>w' t'. agentLoop (Suc fuel) env tid full tools w = Some (Finished, w') \<and>
              toolInvocations w' = toolInvocations w @ map callKey (pre @ [c]) \<and>
              errorOf w' tid = Some (CaughtError e) \<and>
              sentRequests w' = sentRequests w @ [buildRequest env full tools ct] \<and>
              map_of (allThreads (threadsState w')) tid = Some t' \<and>
              messages t' = messages t @ AssistantMessage (Some fullText) (Some fullText)
                              # map (the \<circ> toolMessageOf env) pre"
    by (intro exI[of _ w6] exI[of _ t5]) (simp add: req_def)
qed

text \<open>
  An instance: a final message with the calls \<open>read_file\<close>, \<open>bogus\<close> and \<open>read_file\<close>, of which
  the second is not a tool.
\<close>

theorem tool_failure_stops_turn_witness:
  "map_of (allThreads (threadsState demoService)) ''7'' = Some demoThread \<and>
   thread_id demoThread = ''7'' \<and>
   toolErrorOf demoEnv (demoCall ''read_file'' ''1'') = None \<and>
   toolErrorOf demoEnv (demoCall ''bogus'' ''2'') = Some ''unknown tool'' \<and>
   getCurrentThread demoService = Some demoThread \<and>
   sendLLMMessage demoEnv (length (sentRequests demoService))
       (buildRequest demoEnv ''full'' (Some [''read_file'']) demoThread)
     = Streams ''tok'' [''p'']
         (FinalMessage ''reply''
            ([demoCall ''read_file'' ''1''] @ demoCall ''bogus'' ''2'' # [demoCall ''read_file'' ''3''])) \<and>
   (\<exists>w' t'. agentLoop (Suc 0) demoEnv ''7'' ''full'' (Some [''read_file'']) demoService
               = Some (Finished, w') \<and>
      toolInvocations w' = [(''read_file'', ''a.txt''), (''bogus'', ''a.txt'')] \<and>
      errorOf w' ''7'' = Some (CaughtError ''unknown tool'') \<and>
      length (sentRequests w') = 1 \<and>
      map_of (allThreads (threadsState w')) ''7'' = Some t' \<and>
      messages t' = messages demoThread @
        [AssistantMessage (Some ''reply'') (Some ''reply''),
         ToolMessage ''read_file'' ''a.txt'' ''1'' ''text of a.txt'' ''text of a.txt''])"
proof -
  have ok: "\<forall>p\<in>set [demoCall ''read_file'' ''1'']. toolErrorOf demoEnv p = None"
    by (simp add: toolErrorOf_def demoEnv_def demoCall_def)
  have bad: "toolErrorOf demoEnv (demoCall ''bogus'' ''2'') = Some ''unknown tool''"
    by (simp add: toolErrorOf_def demoEnv_def demoCall_def)
  have cur: "getCurrentThread demoService = Some demoThread"
    by (simp add: getCurrentThread_def demoService_def)
  have reply: "sendLLMMessage demoEnv (length (sentRequests demoService))
       (buildRequest demoEnv ''full'' (Some [''read_file'']) demoThread)
     = Streams ''tok'' [''p'']
         (FinalMessage ''reply''
            ([demoCall ''read_file'' ''1''] @ demoCall ''bogus'' ''2'' # [demoCall ''read_file'' ''3'']))"
    by (simp add: demoEnv_def)
  have msg: "toolMessageOf demoEnv (demoCall ''read_file'' ''1'') =
      Some (ToolMessage ''read_file'' ''a.txt'' ''1'' ''text of a.txt'' ''text of a.txt'')"
    by (simp add: toolMessageOf_def demoEnv_def demoCall_def)
  have req0: "sentRequests demoService = []" "toolInvocations demoService = []"
    by (simp_all add: demoService_def)
  from tool_failure_stops_turn[OF demo_thread demo_thread_id ok,
      of "''reply''" "demoCall ''bogus'' ''2''" "''full''" "Some [''read_file'']" "''tok''" "[''p'']"
         "[demoCall ''read_file'' ''3'']" 0]
    bad cur reply
  obtain w' t' where r:
    "agentLoop (Suc 0) demoEnv ''7'' ''full'' (Some [''read_file'']) demoService = Some (Finished, w')"
    "toolInvocations w' = toolInvocations demoService
        @ map callKey ([demoCall ''read_file'' ''1''] @ [demoCall ''bogus'' ''2''])"
    "errorOf w' ''7'' = Some (CaughtError ''unknown tool'')"
    "sentRequests w' = sentRequests demoService
        @ [buildRequest demoEnv ''full'' (Some [''read_file'']) demoThread]"
    "map_of (allThreads (threadsState w')) ''7'' = Some t'"
    "messages t' = messages demoThread @ AssistantMessage (Some ''reply'') (Some ''reply'')
                     # map (the \<circ> toolMessageOf demoEnv) [demoCall ''read_file'' ''1'']"
    by blast
  have "\<exists>w' t'. agentLoop (Suc 0) demoEnv ''7'' ''full'' (Some [''read_file'']) demoService
               = Some (Finished, w') \<and>
      toolInvocations w' = [(''read_file'', ''a.txt''), (''bogus'', ''a.txt'')] \<and>
      errorOf w' ''7'' = Some (CaughtError ''unknown tool'') \<and>
      length (sentRequests w') = 1 \<and>
      map_of (allThreads (threadsState w')) ''7'' = Some t' \<and>
      messages t' = messages demoThread @
        [AssistantMessage (Some ''reply'') (Some ''reply''),
         ToolMessage ''read_file'' ''a.txt'' ''1'' ''text of a.txt'' ''text of a.txt'']"
    using r by (intro exI[of _ w'] exI[of _ t'])
       (simp add: req0 msg[unfolded demoCall_def] callKey_def demoCall_def del: agentLoop.simps)
  moreover from ok have "toolErrorOf demoEnv (demoCall ''read_file'' ''1'') = None" by simp
  ultimately show ?thesis using demo_thread demo_thread_id bad cur reply by blast
qed

end
